theory Spec2Isabelle
  imports Complex_Main "HOL-Library.Char_ord" "HOL-Library.List_Lexorder" "HOL-Library.Multiset"
begin

section \<open>JavaScript strings and the builtins the sources call\<close>

text \<open>
  A JavaScript string is a sequence of code units; the model uses \<^typ>\<open>string\<close>, so a
  \<^typ>\<open>char\<close> stands for a code unit below 256. On that range the builtins below are the
  ones of ECMAScript: \<open>toLowerCase\<close> maps A-Z and the Latin-1 capitals (U+00C0 to U+00DE
  without the multiplication sign U+00D7) 32 places up, and the white space that
  \<open>trim\<close> and \<open>parseInt\<close> strip is TAB, LF, VT, FF, CR, SPACE and NBSP.
\<close>

definition toLowerChar :: "char \<Rightarrow> char" where
  "toLowerChar c =
     (let n = (of_char c :: nat) in
      if (65 \<le> n \<and> n \<le> 90) \<or> (192 \<le> n \<and> n \<le> 222 \<and> n \<noteq> 215)
      then char_of (n + 32) else c)"

definition toLowerCase :: "string \<Rightarrow> string" where
  "toLowerCase s = map toLowerChar s"

definition isWhiteSpace :: "char \<Rightarrow> bool" where
  "isWhiteSpace c = (let n = (of_char c :: nat) in (9 \<le> n \<and> n \<le> 13) \<or> n = 32 \<or> n = 160)"

definition trim :: "string \<Rightarrow> string" where
  "trim s = rev (dropWhile isWhiteSpace (rev (dropWhile isWhiteSpace s)))"

text \<open>\<open>Array.prototype.join\<close> on an array of strings.\<close>

fun join :: "string \<Rightarrow> string list \<Rightarrow> string" where
  "join sep [] = []"
| "join sep [x] = x"
| "join sep (x # y # ys) = x @ sep @ join sep (y # ys)"

text \<open>
  \<open>Array.prototype.sort(cmp)\<close>. ECMAScript fixes the result, for a consistent comparator,
  as the stable sorted arrangement, whatever algorithm the engine runs; insertion from the
  right end computes it. \<open>cmp a b \<le> 0\<close> keeps \<open>a\<close> before \<open>b\<close>.
\<close>

fun insert_by :: "('a \<Rightarrow> 'a \<Rightarrow> int) \<Rightarrow> 'a \<Rightarrow> 'a list \<Rightarrow> 'a list" where
  "insert_by cmp x [] = [x]"
| "insert_by cmp x (y # ys) = (if cmp x y \<le> 0 then x # y # ys else y # insert_by cmp x ys)"

definition sort_by :: "('a \<Rightarrow> 'a \<Rightarrow> int) \<Rightarrow> 'a list \<Rightarrow> 'a list" where
  "sort_by cmp xs = foldr (insert_by cmp) xs []"

text \<open>
  What ECMAScript asks of a comparator (a consistent comparator): the signs of \<open>cmp a b\<close>
  and \<open>cmp b a\<close> are opposite, and "not after" is transitive. \<open>localeCompare\<close> is one,
  for every locale and option set; which one, the host decides, so the functions below
  take it as an argument.
\<close>

definition consistent_comparator :: "('a \<Rightarrow> 'a \<Rightarrow> int) \<Rightarrow> bool" where
  "consistent_comparator cmp =
     ((\<forall>a b. (cmp a b < 0) = (0 < cmp b a)) \<and>
      (\<forall>a b c. cmp a b \<le> 0 \<longrightarrow> cmp b c \<le> 0 \<longrightarrow> cmp a c \<le> 0))"

text \<open>Comparison by code units, the comparator the concrete runs below pass for
  \<open>localeCompare\<close>.\<close>

definition codeUnitCompare :: "string \<Rightarrow> string \<Rightarrow> int" where
  "codeUnitCompare a b = (if a < b then - 1 else if a = b then 0 else 1)"

subsection \<open>Values, \<open>String\<close> and \<open>Number\<close>\<close>

text \<open>A call returns a value or throws.\<close>

datatype 'a completion = Returns 'a | Throws

text \<open>
  A number is a finite one (the rational stands for the double), \<open>NaN\<close> or an infinity.
  The other values are data, as it comes out of JSON or sits in the fields of a node: an
  object is the list of its own properties, and no value is a function.
\<close>

datatype jsnum = Finite rat | NaN | PosInfinity | NegInfinity

datatype jsval =
    JUndefined | JNull | JBool bool | JNumber jsnum | JString string
  | JObject "(string \<times> jsval) list" | JArray "jsval list"

text \<open>\<open>o[key]\<close> on an object and \<open>xs[i]\<close> on an array: \<open>undefined\<close> where there is
  none.\<close>

definition property :: "(string \<times> jsval) list \<Rightarrow> string \<Rightarrow> jsval" where
  "property props key = (case map_of props key of Some v \<Rightarrow> v | None \<Rightarrow> JUndefined)"

definition elementAt :: "jsval list \<Rightarrow> nat \<Rightarrow> jsval" where
  "elementAt xs i = (if i < length xs then xs ! i else JUndefined)"

definition truthy :: "jsval \<Rightarrow> bool" where
  "truthy v =
     (case v of
        JUndefined \<Rightarrow> False
      | JNull \<Rightarrow> False
      | JBool b \<Rightarrow> b
      | JNumber n \<Rightarrow> (case n of Finite r \<Rightarrow> r \<noteq> 0 | NaN \<Rightarrow> False | _ \<Rightarrow> True)
      | JString s \<Rightarrow> s \<noteq> []
      | JObject _ \<Rightarrow> True
      | JArray _ \<Rightarrow> True)"

text \<open>
  \<open>String(v)\<close>, ECMAScript's ToString. The text of a finite number and the number of a
  string (\<open>Number::toString\<close> and StringToNumber, which return for every argument) are
  arguments of the model. An object is turned into a primitive by its \<open>toString\<close> and
  \<open>valueOf\<close>: a data object inherits both, and is \<open>[object Object]\<close>, unless it has an own
  property \<open>toString\<close>, which is no function; then \<open>valueOf\<close> gives no primitive either
  and the conversion throws a TypeError. An array joins the texts of its elements, the
  empty text for \<open>undefined\<close> and \<open>null\<close>.
\<close>

definition numberString :: "(rat \<Rightarrow> string) \<Rightarrow> jsnum \<Rightarrow> string" where
  "numberString numberToString n =
     (case n of
        Finite r \<Rightarrow> numberToString r
      | NaN \<Rightarrow> ''NaN''
      | PosInfinity \<Rightarrow> ''Infinity''
      | NegInfinity \<Rightarrow> ''-Infinity'')"

fun ToString :: "(rat \<Rightarrow> string) \<Rightarrow> jsval \<Rightarrow> string completion"
  and elementStrings :: "(rat \<Rightarrow> string) \<Rightarrow> jsval list \<Rightarrow> string list completion" where
  "ToString nts JUndefined = Returns ''undefined''"
| "ToString nts JNull = Returns ''null''"
| "ToString nts (JBool b) = Returns (if b then ''true'' else ''false'')"
| "ToString nts (JNumber n) = Returns (numberString nts n)"
| "ToString nts (JString s) = Returns s"
| "ToString nts (JObject props) =
     (if ''toString'' \<in> fst ` set props then Throws else Returns ''[object Object]'')"
| "ToString nts (JArray xs) =
     (case elementStrings nts xs of Throws \<Rightarrow> Throws | Returns ss \<Rightarrow> Returns (join '','' ss))"
| "elementStrings nts [] = Returns []"
| "elementStrings nts (x # xs) =
     (case (if x = JUndefined \<or> x = JNull then Returns [] else ToString nts x) of
        Throws \<Rightarrow> Throws
      | Returns s \<Rightarrow>
          (case elementStrings nts xs of Throws \<Rightarrow> Throws | Returns ss \<Rightarrow> Returns (s # ss)))"

text \<open>
  \<open>Number(v)\<close>, ECMAScript's ToNumber. An object or array becomes a primitive as above
  (with \<open>valueOf\<close> asked first, to the same end) and then a number as a string does.
\<close>

definition ToNumber ::
  "(rat \<Rightarrow> string) \<Rightarrow> (string \<Rightarrow> jsnum) \<Rightarrow> jsval \<Rightarrow> jsnum completion" where
  "ToNumber nts stn v =
     (case v of
        JUndefined \<Rightarrow> Returns NaN
      | JNull \<Rightarrow> Returns (Finite 0)
      | JBool b \<Rightarrow> Returns (Finite (if b then 1 else 0))
      | JNumber n \<Rightarrow> Returns n
      | JString s \<Rightarrow> Returns (stn s)
      | _ \<Rightarrow> (case ToString nts v of Throws \<Rightarrow> Throws | Returns s \<Rightarrow> Returns (stn s)))"

definition isFinite :: "jsnum \<Rightarrow> bool" where
  "isFinite n = (case n of Finite _ \<Rightarrow> True | _ \<Rightarrow> False)"

text \<open>\<open>a ?? b\<close>\<close>

definition nullish :: "jsval \<Rightarrow> jsval \<Rightarrow> jsval" where
  "nullish a b = (if a = JUndefined \<or> a = JNull then b else a)"

text \<open>Decimal digits: the digits of a natural number, and the value of a run of digits.\<close>

fun dec :: "nat \<Rightarrow> string" where
  "dec n = (if n < 10 then [char_of (48 + n)] else dec (n div 10) @ [char_of (48 + n mod 10)])"

declare dec.simps [simp del]

definition isDigit :: "char \<Rightarrow> bool" where
  "isDigit c = (let n = (of_char c :: nat) in 48 \<le> n \<and> n \<le> 57)"

definition digitValue :: "char \<Rightarrow> int" where
  "digitValue c = int (of_char c) - 48"

definition digitsValue :: "string \<Rightarrow> int" where
  "digitsValue Z = foldl (\<lambda>acc c. 10 * acc + digitValue c) 0 Z"

text \<open>
  The two conversions the concrete runs below pass: a whole number is printed as
  ECMAScript prints it, and a string of digits, or of white space only, is read as
  ECMAScript reads it; they stand in on the rest.
\<close>

definition wholeNumberToString :: "rat \<Rightarrow> string" where
  "wholeNumberToString r = (if r < 0 then ''-'' @ dec (nat \<lfloor>- r\<rfloor>) else dec (nat \<lfloor>r\<rfloor>))"

definition digitsToNumber :: "string \<Rightarrow> jsnum" where
  "digitsToNumber str =
     (let s = trim str
      in if s = [] then Finite 0
         else if list_all isDigit s then Finite (of_int (digitsValue s))
         else NaN)"

section \<open>Node replacement: \<open>Node_Replacement_Core.js\<close>\<close>

subsection \<open>Type compatibility\<close>

text \<open>
  A slot type is \<open>string | null\<close> (the cache's own comment); \<open>None\<close> is \<open>null\<close> or
  \<open>undefined\<close>. \<open>!t\<close> holds of \<open>null\<close> and of the empty string.
\<close>

type_synonym slot_type = "string option"

definition falsy :: "slot_type \<Rightarrow> bool" where
  "falsy t = (case t of None \<Rightarrow> True | Some s \<Rightarrow> s = [])"

definition typeCompatible :: "slot_type \<Rightarrow> slot_type \<Rightarrow> bool" where
  "typeCompatible requiredType candidateType =
     (if falsy requiredType then True
      else if falsy candidateType then False
      else
        (let A = toLowerCase (case requiredType of Some s \<Rightarrow> s | None \<Rightarrow> []);
             B = toLowerCase (case candidateType of Some s \<Rightarrow> s | None \<Rightarrow> [])
         in if A = ''*'' \<or> A = ''any'' then True
            else if B = ''*'' \<or> B = ''any'' then True
            else A = B))"

text \<open>A wildcard type: \<open>*\<close> or \<open>any\<close>, whatever the case of its letters.\<close>

definition isWildcard :: "string \<Rightarrow> bool" where
  "isWildcard s = (toLowerCase s = ''*'' \<or> toLowerCase s = ''any'')"

subsection \<open>Nodes, slots, links and the graph\<close>

text \<open>
  The host's objects, with the fields the sources read and write. A node's \<open>inputs\<close> or
  \<open>outputs\<close> that is \<open>undefined\<close> is the empty list, and an output's \<open>links\<close> that is
  \<open>null\<close> is the empty list: every place of the sources treats the two alike. A node
  object is known by its id; the graph's node list is the store of the node objects.
\<close>

text \<open>
  A node's \<open>pos\<close> is any value: an array of two coordinates as a rule, an object with
  the properties \<open>x\<close> and \<open>y\<close> or \<open>0\<close> and \<open>1\<close> (a typed array is such an object), or
  something else. Its \<open>size\<close> is a pair or nothing.
\<close>

record in_slot =
  in_name :: string
  in_type :: slot_type
  in_link :: "nat option"

record out_slot =
  out_name :: string
  out_type :: slot_type
  out_links :: "nat list"

record node =
  node_id :: nat
  node_type :: string
  inputs :: "in_slot list"
  outputs :: "out_slot list"
  node_pos :: jsval
  node_size :: "(jsval \<times> jsval) option"

record link =
  origin_id :: nat
  origin_slot :: nat
  target_id :: nat
  target_slot :: nat

record graph =
  nodes :: "node list"
  links :: "(nat \<times> link) list"

definition getNodeById :: "graph \<Rightarrow> nat \<Rightarrow> node option" where
  "getNodeById g i = find (\<lambda>n. node_id n = i) (nodes g)"

text \<open>\<open>graph.links?.[linkId]\<close>\<close>

definition linkAt :: "graph \<Rightarrow> nat \<Rightarrow> link option" where
  "linkAt g linkId = map_of (links g) linkId"

text \<open>An assignment to a field of the node object with id \<open>i\<close>.\<close>

definition update_node :: "nat \<Rightarrow> (node \<Rightarrow> node) \<Rightarrow> graph \<Rightarrow> graph" where
  "update_node i f g = g\<lparr>nodes := map (\<lambda>n. if node_id n = i then f n else n) (nodes g)\<rparr>"

subsection \<open>The host's functions\<close>

text \<open>
  LiteGraph is not part of the repository; its functions are arguments of the model.
  \<open>registered_node_types\<close> is \<open>Object.keys\<close> of the registry, \<open>None\<close> when LiteGraph or
  its registry is missing. \<open>createNode\<close> returns a node or \<open>null\<close>, or throws.
  \<open>graph_add\<close> enters a node and returns the id it has in the graph, or throws.
  \<open>node_connect a i b j\<close> is \<open>a.connect(i, b, j)\<close> on the nodes with ids \<open>a\<close> and \<open>b\<close>:
  it returns whether it threw and the graph it leaves. \<open>graph_remove\<close> removes the node
  with the id, or throws. The engine's two number conversions are with the host.
\<close>

record host =
  numberToString :: "rat \<Rightarrow> string"
  stringToNumber :: "string \<Rightarrow> jsnum"
  registered_node_types :: "string list option"
  createNode :: "string \<Rightarrow> node option completion"
  graph_add :: "node \<Rightarrow> graph \<Rightarrow> (nat \<times> graph) completion"
  node_connect :: "nat \<Rightarrow> nat \<Rightarrow> nat \<Rightarrow> nat \<Rightarrow> graph \<Rightarrow> bool \<times> graph"
  graph_remove :: "nat \<Rightarrow> graph \<Rightarrow> graph completion"

subsection \<open>The cache of type signatures\<close>

record io_sig =
  inTypes :: "slot_type list"
  outTypes :: "slot_type list"

text \<open>A JavaScript \<open>Map\<close> keeps its keys in insertion order; \<open>set\<close> on a key it has
  replaces the value in place.\<close>

type_synonym io_cache = "(string \<times> io_sig) list"

fun map_set :: "'k \<Rightarrow> 'v \<Rightarrow> ('k \<times> 'v) list \<Rightarrow> ('k \<times> 'v) list" where
  "map_set k v [] = [(k, v)]"
| "map_set k v ((k', v') # m) = (if k = k' then (k, v) # m else (k', v') # map_set k v m)"

record tkp_state =
  isOpen :: bool
  ioCache :: "io_cache option"
  ioCacheBuilt :: bool

definition safeCreateNode :: "host \<Rightarrow> string \<Rightarrow> node option" where
  "safeCreateNode h typeName =
     (case createNode h typeName of Returns r \<Rightarrow> r | Throws \<Rightarrow> None)"

text \<open>One turn of the loop over the registry's keys.\<close>

definition cacheType :: "host \<Rightarrow> string \<Rightarrow> io_cache \<Rightarrow> io_cache" where
  "cacheType h typeName cache =
     (case safeCreateNode h typeName of
        None \<Rightarrow> cache
      | Some node \<Rightarrow>
          map_set typeName
            \<lparr>inTypes = map in_type (inputs node), outTypes = map out_type (outputs node)\<rparr>
            cache)"

text \<open>A completed call of \<open>ensureIOCacheBuilt\<close>, with the host as it is during the call.\<close>

definition ensureIOCacheBuilt :: "host \<Rightarrow> tkp_state \<Rightarrow> tkp_state" where
  "ensureIOCacheBuilt h st =
     (if ioCacheBuilt st \<and> ioCache st \<noteq> None then st
      else
        (case registered_node_types h of
           None \<Rightarrow> st\<lparr>ioCache := Some [], ioCacheBuilt := True\<rparr>
         | Some reg \<Rightarrow> st\<lparr>ioCache := Some (fold (cacheType h) reg []), ioCacheBuilt := True\<rparr>))"

subsection \<open>The compatibility search\<close>

text \<open>\<open>arr[i]\<close>, \<open>undefined\<close> out of range.\<close>

definition typeAt :: "slot_type list \<Rightarrow> nat \<Rightarrow> slot_type" where
  "typeAt arr i = (if i < length arr then arr ! i else None)"

text \<open>\<open>origin?.outputs?.[link.origin_slot]?.type\<close>\<close>

definition originOutType :: "graph \<Rightarrow> link \<Rightarrow> slot_type" where
  "originOutType g l =
     (case getNodeById g (origin_id l) of
        None \<Rightarrow> None
      | Some origin \<Rightarrow>
          (if origin_slot l < length (outputs origin)
           then out_type (outputs origin ! origin_slot l) else None))"

text \<open>
  The entries of \<open>reqIn\<close> and \<open>reqOut\<close>. The source leaves holes in the two arrays where
  it assigns nothing; a hole and \<open>null\<close> are both \<open>None\<close>, and the loops that read the
  arrays skip both.
\<close>

definition requiredIn :: "graph \<Rightarrow> in_slot \<Rightarrow> slot_type" where
  "requiredIn g inp =
     (case in_link inp of
        None \<Rightarrow> None
      | Some linkId \<Rightarrow>
          (case linkAt g linkId of
             None \<Rightarrow> None
           | Some l \<Rightarrow>
               (case originOutType g l of Some t \<Rightarrow> Some t | None \<Rightarrow> in_type inp)))"

definition requiredOut :: "out_slot \<Rightarrow> slot_type" where
  "requiredOut out = (if out_links out \<noteq> [] then out_type out else None)"

definition highestRequiredIndex :: "slot_type list \<Rightarrow> int" where
  "highestRequiredIndex arr =
     fold (\<lambda>(i, a) hi. if a \<noteq> None then int i else hi) (enumerate 0 arr) (- 1)"

definition matchRequired :: "slot_type list \<Rightarrow> slot_type list \<Rightarrow> bool" where
  "matchRequired required candidate =
     list_all (\<lambda>(i, r). r = None \<or> typeCompatible r (typeAt candidate i)) (enumerate 0 required)"

definition getValidReplacementsFromConnections ::
  "(string \<Rightarrow> string \<Rightarrow> int) \<Rightarrow> tkp_state \<Rightarrow> graph \<Rightarrow> node \<Rightarrow> string list" where
  "getValidReplacementsFromConnections localeCompare st g oldNode =
     (case ioCache st of
        None \<Rightarrow> []
      | Some cache \<Rightarrow>
          (let reqIn = map (requiredIn g) (inputs oldNode);
               reqOut = map requiredOut (outputs oldNode);
               minInSlots = highestRequiredIndex reqIn + 1;
               minOutSlots = highestRequiredIndex reqOut + 1;
               results =
                 map fst
                   (filter
                      (\<lambda>(typeName, sig).
                         typeName \<noteq> node_type oldNode
                         \<and> \<not> int (length (inTypes sig)) < minInSlots
                         \<and> \<not> int (length (outTypes sig)) < minOutSlots
                         \<and> matchRequired reqIn (inTypes sig)
                         \<and> matchRequired reqOut (outTypes sig))
                      cache)
           in sort_by localeCompare results))"

subsection \<open>The swap\<close>

text \<open>
  \<open>normalizePos\<close>. \<open>Number(x)\<close> throws where the coordinate is an object that has no
  primitive value; the throw leaves \<open>normalizePos\<close> and its caller.
\<close>

definition Number :: "host \<Rightarrow> jsval \<Rightarrow> jsnum completion" where
  "Number h v = ToNumber (numberToString h) (stringToNumber h) v"

definition normalizePos :: "host \<Rightarrow> jsval \<Rightarrow> jsval completion" where
  "normalizePos h p =
     (let (x, y) =
            (case p of
               JArray xs \<Rightarrow> (elementAt xs 0, elementAt xs 1)
             | JObject props \<Rightarrow>
                 (nullish (property props ''x'') (property props ''0''),
                  nullish (property props ''y'') (property props ''1''))
             | _ \<Rightarrow> (JNumber (Finite 0), JNumber (Finite 0)))
      in case Number h x of
           Throws \<Rightarrow> Throws
         | Returns x \<Rightarrow>
             (case Number h y of
                Throws \<Rightarrow> Throws
              | Returns y \<Rightarrow>
                  (let x = (if \<not> isFinite x then Finite 0 else x);
                       y = (if \<not> isFinite y then Finite 0 else y)
                   in Returns (JArray [JNumber x, JNumber y]))))"

record input_link =
  il_origin_id :: nat
  il_origin_slot :: nat
  il_target_slot :: nat
  il_name :: string

record output_link =
  ol_target_id :: nat
  ol_target_slot :: nat
  ol_origin_slot :: nat
  ol_name :: string

definition snapshotInputs :: "graph \<Rightarrow> node \<Rightarrow> input_link list" where
  "snapshotInputs g n =
     List.map_filter
       (\<lambda>(index, inp).
          case in_link inp of
            None \<Rightarrow> None
          | Some linkId \<Rightarrow>
              (case linkAt g linkId of
                 None \<Rightarrow> None
               | Some l \<Rightarrow>
                   Some \<lparr>il_origin_id = origin_id l, il_origin_slot = origin_slot l,
                         il_target_slot = index, il_name = in_name inp\<rparr>))
       (enumerate 0 (inputs n))"

definition snapshotOutputs :: "graph \<Rightarrow> node \<Rightarrow> output_link list" where
  "snapshotOutputs g n =
     concat
       (map
          (\<lambda>(index, out).
             List.map_filter
               (\<lambda>linkId.
                  case linkAt g linkId of
                    None \<Rightarrow> None
                  | Some l \<Rightarrow>
                      Some \<lparr>ol_target_id = target_id l, ol_target_slot = target_slot l,
                            ol_origin_slot = index, ol_name = out_name out\<rparr>)
               (out_links out))
          (enumerate 0 (outputs n)))"

text \<open>
  The callbacks of the two \<open>forEach\<close> loops. \<open>newNode\<close> is the object with id \<open>newId\<close>;
  \<open>try { ... } catch {}\<close> goes on with the graph the call leaves, thrown or not.
\<close>

definition reconnectInput :: "host \<Rightarrow> nat \<Rightarrow> input_link \<Rightarrow> graph \<Rightarrow> graph" where
  "reconnectInput h newId l g =
     (case getNodeById g (il_origin_id l) of
        None \<Rightarrow> g
      | Some origin \<Rightarrow>
          (case getNodeById g newId of
             None \<Rightarrow> g
           | Some newNode \<Rightarrow>
               (if il_target_slot l \<ge> length (inputs newNode) then g
                else snd (node_connect h (node_id origin) (il_origin_slot l) newId
                            (il_target_slot l) g))))"

definition reconnectOutput :: "host \<Rightarrow> nat \<Rightarrow> output_link \<Rightarrow> graph \<Rightarrow> graph" where
  "reconnectOutput h newId l g =
     (case getNodeById g (ol_target_id l) of
        None \<Rightarrow> g
      | Some target \<Rightarrow>
          (case getNodeById g newId of
             None \<Rightarrow> g
           | Some newNode \<Rightarrow>
               (if ol_origin_slot l \<ge> length (outputs newNode) then g
                else snd (node_connect h newId (ol_origin_slot l) (node_id target)
                            (ol_target_slot l) g))))"

definition reconnectInputs :: "host \<Rightarrow> nat \<Rightarrow> input_link list \<Rightarrow> graph \<Rightarrow> graph" where
  "reconnectInputs h newId ls g = fold (reconnectInput h newId) ls g"

definition reconnectOutputs :: "host \<Rightarrow> nat \<Rightarrow> output_link list \<Rightarrow> graph \<Rightarrow> graph" where
  "reconnectOutputs h newId ls g = fold (reconnectOutput h newId) ls g"

text \<open>
  The two assignments between \<open>graph.add\<close> and the reconnection: \<open>newNode.pos\<close>, and
  the two elements of \<open>newNode.size\<close> when the old node and the new one both have a size.
\<close>

definition place :: "nat \<Rightarrow> jsval \<Rightarrow> (jsval \<times> jsval) option \<Rightarrow> graph \<Rightarrow> graph" where
  "place newId p sz g =
     (let g' = update_node newId (\<lambda>n. n\<lparr>node_pos := p\<rparr>) g
      in case sz of
           None \<Rightarrow> g'
         | Some s \<Rightarrow>
             update_node newId
               (\<lambda>n. case node_size n of None \<Rightarrow> n | Some _ \<Rightarrow> n\<lparr>node_size := Some s\<rparr>) g')"

text \<open>
  \<open>replaceNode\<close>. \<open>normalizePos\<close> is called on the old node's \<open>pos\<close> before
  \<open>graph.add\<close>, and on its own result after it. A throw of \<open>normalizePos\<close>,
  \<open>graph.add\<close> or \<open>graph.remove\<close> is not caught and leaves the function. The last
  statement selects the new node on the canvas inside a \<open>try\<close>/\<open>catch\<close>; the canvas is
  not part of the graph.
\<close>

definition replaceNode :: "host \<Rightarrow> graph \<Rightarrow> node \<Rightarrow> string \<Rightarrow> graph completion" where
  "replaceNode h g oldNode newType =
     (case safeCreateNode h newType of
        None \<Rightarrow> Returns g
      | Some newNode \<Rightarrow>
          (case normalizePos h (node_pos oldNode) of
             Throws \<Rightarrow> Throws
           | Returns pos \<Rightarrow>
               (let sz = node_size oldNode;
                    inputLinks = snapshotInputs g oldNode;
                    outputLinks = snapshotOutputs g oldNode
                in case graph_add h newNode g of
                     Throws \<Rightarrow> Throws
                   | Returns (newId, g1) \<Rightarrow>
                       (case normalizePos h pos of
                          Throws \<Rightarrow> Throws
                        | Returns newPos \<Rightarrow>
                            graph_remove h (node_id oldNode)
                              (reconnectOutputs h newId outputLinks
                                 (reconnectInputs h newId inputLinks
                                    (place newId newPos sz g1)))))))"

subsection \<open>The properties, as predicates\<close>

text \<open>
  An input slot is connected when it has a link that the graph knows; an output slot is
  connected when its \<open>links\<close> array is not empty.
\<close>

definition connectedIn :: "graph \<Rightarrow> in_slot \<Rightarrow> bool" where
  "connectedIn g inp = (case in_link inp of None \<Rightarrow> False | Some linkId \<Rightarrow> linkAt g linkId \<noteq> None)"

definition connectedOut :: "out_slot \<Rightarrow> bool" where
  "connectedOut out = (out_links out \<noteq> [])"

text \<open>
  Compatibility of a signature with the wiring, read over the connected slots: the
  signature has a slot at every connected index (so at least one more slot than the
  highest connected index), of a type compatible with the required one.
\<close>

definition connectedCompatible :: "graph \<Rightarrow> node \<Rightarrow> io_sig \<Rightarrow> bool" where
  "connectedCompatible g oldNode sig =
     (list_all
        (\<lambda>(i, inp). connectedIn g inp \<longrightarrow>
           i < length (inTypes sig) \<and> typeCompatible (requiredIn g inp) (typeAt (inTypes sig) i))
        (enumerate 0 (inputs oldNode))
      \<and> list_all
        (\<lambda>(j, out). connectedOut out \<longrightarrow>
           j < length (outTypes sig) \<and> typeCompatible (out_type out) (typeAt (outTypes sig) j))
        (enumerate 0 (outputs oldNode)))"

text \<open>
  The same, read over the slots from which the wiring requires a type: the connected
  slots whose required type is not \<open>null\<close>.
\<close>

definition wiringCompatible :: "graph \<Rightarrow> node \<Rightarrow> io_sig \<Rightarrow> bool" where
  "wiringCompatible g oldNode sig =
     (list_all
        (\<lambda>(i, inp). connectedIn g inp \<and> requiredIn g inp \<noteq> None \<longrightarrow>
           i < length (inTypes sig) \<and> typeCompatible (requiredIn g inp) (typeAt (inTypes sig) i))
        (enumerate 0 (inputs oldNode))
      \<and> list_all
        (\<lambda>(j, out). connectedOut out \<and> out_type out \<noteq> None \<longrightarrow>
           j < length (outTypes sig) \<and> typeCompatible (out_type out) (typeAt (outTypes sig) j))
        (enumerate 0 (outputs oldNode)))"

text \<open>
  A snapshotted link can be preserved when its other end is a node of the graph and its
  slot index on the new node is within the new node's slots; the attempt is the host's
  \<open>connect\<close> at the snapshot's slot indices.
\<close>

definition preservableIn :: "graph \<Rightarrow> nat \<Rightarrow> input_link \<Rightarrow> bool" where
  "preservableIn g newId l =
     (getNodeById g (il_origin_id l) \<noteq> None \<and>
      (case getNodeById g newId of
         None \<Rightarrow> False
       | Some newNode \<Rightarrow> il_target_slot l < length (inputs newNode)))"

definition preservableOut :: "graph \<Rightarrow> nat \<Rightarrow> output_link \<Rightarrow> bool" where
  "preservableOut g newId l =
     (getNodeById g (ol_target_id l) \<noteq> None \<and>
      (case getNodeById g newId of
         None \<Rightarrow> False
       | Some newNode \<Rightarrow> ol_origin_slot l < length (outputs newNode)))"

definition attemptInput :: "host \<Rightarrow> nat \<Rightarrow> input_link \<Rightarrow> graph \<Rightarrow> graph" where
  "attemptInput h newId l g =
     snd (node_connect h (il_origin_id l) (il_origin_slot l) newId (il_target_slot l) g)"

definition attemptOutput :: "host \<Rightarrow> nat \<Rightarrow> output_link \<Rightarrow> graph \<Rightarrow> graph" where
  "attemptOutput h newId l g =
     snd (node_connect h newId (ol_origin_slot l) (ol_target_id l) (ol_target_slot l) g)"



definition geometry :: "node \<Rightarrow> jsval \<times> (jsval \<times> jsval) option" where
  "geometry n = (node_pos n, node_size n)"

definition connect_keeps_geometry :: "host \<Rightarrow> bool" where
  "connect_keeps_geometry h =
     (\<forall>a i b j g k.
        map_option geometry (getNodeById (snd (node_connect h a i b j g)) k) =
        map_option geometry (getNodeById g k))"

definition remove_keeps_geometry :: "host \<Rightarrow> bool" where
  "remove_keeps_geometry h =
     (\<forall>i g g' k. graph_remove h i g = Returns g' \<longrightarrow> k \<noteq> i \<longrightarrow>
        map_option geometry (getNodeById g' k) = map_option geometry (getNodeById g k))"

text \<open>
  The two coordinates \<open>normalizePos\<close> reads from a \<open>pos\<close> (the first two elements of an
  array; \<open>x\<close> and \<open>y\<close>, or else \<open>0\<close> and \<open>1\<close>, of an object; zeros of anything else), and
  a number made finite: itself, or 0 when it is \<open>NaN\<close> or an infinity.
\<close>

definition coordsOf :: "jsval \<Rightarrow> jsval \<times> jsval" where
  "coordsOf p =
     (case p of
        JArray xs \<Rightarrow> (elementAt xs 0, elementAt xs 1)
      | JObject props \<Rightarrow>
          (nullish (property props ''x'') (property props ''0''),
           nullish (property props ''y'') (property props ''1''))
      | _ \<Rightarrow> (JNumber (Finite 0), JNumber (Finite 0)))"

definition finiteOr0 :: "jsnum \<Rightarrow> rat" where
  "finiteOr0 n = (case n of Finite r \<Rightarrow> r | _ \<Rightarrow> 0)"

text \<open>The signature the cache keeps for a type: the slot types of the node made for
  it. The keys of the registry, none when there is no registry.\<close>

definition signatureOf :: "node \<Rightarrow> io_sig" where
  "signatureOf n = \<lparr>inTypes = map in_type (inputs n), outTypes = map out_type (outputs n)\<rparr>"

definition registeredTypes :: "host \<Rightarrow> string list" where
  "registeredTypes h = (case registered_node_types h of None \<Rightarrow> [] | Some reg \<Rightarrow> reg)"

subsection \<open>A small host and graph for the concrete runs\<close>

definition slotIn :: "string \<Rightarrow> slot_type \<Rightarrow> nat option \<Rightarrow> in_slot" where
  "slotIn n t l = \<lparr>in_name = n, in_type = t, in_link = l\<rparr>"

definition slotOut :: "string \<Rightarrow> slot_type \<Rightarrow> nat list \<Rightarrow> out_slot" where
  "slotOut n t ls = \<lparr>out_name = n, out_type = t, out_links = ls\<rparr>"

definition mkNode ::
  "nat \<Rightarrow> string \<Rightarrow> in_slot list \<Rightarrow> out_slot list \<Rightarrow> jsval \<Rightarrow> (jsval \<times> jsval) option \<Rightarrow> node" where
  "mkNode i t ins outs p sz =
     \<lparr>node_id = i, node_type = t, inputs = ins, outputs = outs, node_pos = p, node_size = sz\<rparr>"

definition mkLink :: "nat \<Rightarrow> nat \<Rightarrow> nat \<Rightarrow> nat \<Rightarrow> link" where
  "mkLink a i b j = \<lparr>origin_id = a, origin_slot = i, target_id = b, target_slot = j\<rparr>"

definition num :: "rat \<Rightarrow> jsval" where
  "num r = JNumber (Finite r)"

text \<open>The registry: a loader, two filters, a viewer, and a type whose constructor
  throws.\<close>

definition sample_types :: "(string \<times> node) list" where
  "sample_types =
     [(''LoadImage'', mkNode 0 ''LoadImage'' []
         [slotOut ''IMAGE'' (Some ''IMAGE'') [], slotOut ''MASK'' (Some ''MASK'') []]
         (JArray [num 0, num 0]) (Some (num 200, num 100))),
      (''Blur'', mkNode 0 ''Blur'' [slotIn ''image'' (Some ''IMAGE'') None]
         [slotOut ''IMAGE'' (Some ''IMAGE'') []]
         (JArray [num 0, num 0]) (Some (num 150, num 60))),
      (''Sharpen'', mkNode 0 ''Sharpen'' [slotIn ''image'' (Some ''image'') None]
         [slotOut ''IMAGE'' (Some ''*'') []]
         (JArray [num 0, num 0]) (Some (num 140, num 50))),
      (''Preview'', mkNode 0 ''Preview'' [slotIn ''images'' (Some ''IMAGE'') None] []
         (JArray [num 0, num 0]) None)]"

definition freshNodeId :: "graph \<Rightarrow> nat" where
  "freshNodeId g = Suc (fold max (map node_id (nodes g)) 0)"

definition freshLinkId :: "graph \<Rightarrow> nat" where
  "freshLinkId g = Suc (fold max (map fst (links g)) 0)"

text \<open>
  \<open>connect\<close> of the small host throws when the target is the viewer (and leaves the
  graph as it is), and records a link otherwise.
\<close>

definition sample_connect :: "nat \<Rightarrow> nat \<Rightarrow> nat \<Rightarrow> nat \<Rightarrow> graph \<Rightarrow> bool \<times> graph" where
  "sample_connect a i b j g =
     (case getNodeById g b of
        None \<Rightarrow> (True, g)
      | Some t \<Rightarrow>
          (if node_type t = ''Preview'' then (True, g)
           else (False, g\<lparr>links := links g @ [(freshLinkId g, mkLink a i b j)]\<rparr>)))"

definition sample_host :: host where
  "sample_host =
     \<lparr>numberToString = wholeNumberToString,
      stringToNumber = digitsToNumber,
      registered_node_types = Some (map fst sample_types @ [''Broken'']),
      createNode = (\<lambda>t. if t = ''Broken'' then Throws else Returns (map_of sample_types t)),
      graph_add = (\<lambda>n g. Returns (freshNodeId g,
                     g\<lparr>nodes := nodes g @ [n\<lparr>node_id := freshNodeId g\<rparr>]\<rparr>)),
      node_connect = sample_connect,
      graph_remove = (\<lambda>i g. Returns (g\<lparr>nodes := filter (\<lambda>n. node_id n \<noteq> i) (nodes g)\<rparr>))\<rparr>"

text \<open>
  A loader (1) feeds a filter (2), which feeds a viewer (3) and a second filter (4).
  The filter 2 is the node to replace; its \<open>pos\<close> is the broken \<open>[null, 40]\<close>.
\<close>

definition sample_old :: node where
  "sample_old =
     mkNode 2 ''Blur'' [slotIn ''image'' (Some ''IMAGE'') (Some 1)]
       [slotOut ''IMAGE'' (Some ''IMAGE'') [2, 3]]
       (JArray [JNull, num 40]) (Some (num 150, num 60))"

definition sample_graph :: graph where
  "sample_graph =
     \<lparr>nodes =
        [mkNode 1 ''LoadImage'' []
           [slotOut ''IMAGE'' (Some ''IMAGE'') [1], slotOut ''MASK'' (Some ''MASK'') []]
           (JArray [num 10, num 40]) (Some (num 200, num 100)),
         sample_old,
         mkNode 3 ''Preview'' [slotIn ''images'' (Some ''IMAGE'') (Some 2)] []
           (JArray [num 500, num 40]) None,
         mkNode 4 ''Blur'' [slotIn ''image'' (Some ''IMAGE'') (Some 3)]
           [slotOut ''IMAGE'' (Some ''IMAGE'') []]
           (JArray [num 500, num 200]) (Some (num 150, num 60))],
      links = [(1, mkLink 1 0 2 0), (2, mkLink 2 0 3 0), (3, mkLink 2 0 4 0)]\<rparr>"

definition fresh_state :: tkp_state where
  "fresh_state = \<lparr>isOpen = False, ioCache = None, ioCacheBuilt = False\<rparr>"

definition sample_state :: tkp_state where
  "sample_state = ensureIOCacheBuilt sample_host fresh_state"

text \<open>A filter that is not wired to anything.\<close>

definition unwired :: node where
  "unwired =
     mkNode 5 ''Blur'' [slotIn ''image'' (Some ''IMAGE'') None]
       [slotOut ''IMAGE'' (Some ''IMAGE'') []] (JArray [num 0, num 0]) None"

text \<open>
  A graph whose slots carry no type: a source (1) feeds a relay (2) over the link 1. The
  cache knows the two and a note, which has no slot at all.
\<close>

definition untyped_old :: node where
  "untyped_old =
     mkNode 2 ''Relay'' [slotIn ''in'' None (Some 1)] [] (JArray [num 0, num 0]) None"

definition untyped_graph :: graph where
  "untyped_graph =
     \<lparr>nodes = [mkNode 1 ''Source'' [] [slotOut ''out'' None [1]] (JArray [num 0, num 0]) None,
               untyped_old],
      links = [(1, mkLink 1 0 2 0)]\<rparr>"

definition untyped_state :: tkp_state where
  "untyped_state =
     \<lparr>isOpen = False,
      ioCache = Some [(''Source'', \<lparr>inTypes = [], outTypes = [None]\<rparr>),
                      (''Relay'', \<lparr>inTypes = [None], outTypes = []\<rparr>),
                      (''Note'', \<lparr>inTypes = [], outTypes = []\<rparr>)],
      ioCacheBuilt = True\<rparr>"

text \<open>
  The small host after one more type has been registered, a filter like the others.
\<close>

definition invert_node :: node where
  "invert_node =
     mkNode 0 ''Invert'' [slotIn ''image'' (Some ''IMAGE'') None]
       [slotOut ''IMAGE'' (Some ''IMAGE'') []] (JArray [num 0, num 0]) (Some (num 120, num 40))"

definition later_host :: host where
  "later_host =
     sample_host
       \<lparr>registered_node_types := Some (map fst sample_types @ [''Broken'', ''Invert'']),
        createNode := (\<lambda>t. if t = ''Invert'' then Returns (Some invert_node)
                            else createNode sample_host t)\<rparr>"

text \<open>The node the small host makes for \<open>Sharpen\<close>, and the graph after \<open>graph.add\<close>.\<close>

definition sample_new :: node where
  "sample_new =
     mkNode 0 ''Sharpen'' [slotIn ''image'' (Some ''image'') None]
       [slotOut ''IMAGE'' (Some ''*'') []] (JArray [num 0, num 0]) (Some (num 140, num 50))"

definition sample_added :: graph where
  "sample_added = sample_graph\<lparr>nodes := nodes sample_graph @ [sample_new\<lparr>node_id := 5\<rparr>]\<rparr>"

section \<open>Sidebar sorting: \<open>ComfyUI_Sidebar_Extension.js\<close>\<close>

text \<open>
  A DOM element is known by a number. What the document gives for an element is an
  argument of the model: \<open>tabLabelKey n\<close> is \<open>labelKey(getTabLabel(n))\<close>, the element's
  label with its white space normalised and in lower case, and \<open>tabLike n\<close> is
  \<open>isTabLike(n) || n.querySelector("[role='tab'],button,a")\<close>. Moving an element
  changes neither.
\<close>

record dom =
  tabLabelKey :: "nat \<Rightarrow> string"
  tabLike :: "nat \<Rightarrow> bool"

text \<open>
  A container: its child elements in document order (a DOM node's children are
  distinct), the direct children that the elements matching
  \<open>[role='tab'], button, a, li\<close> inside it lead to through \<open>getDirectChild\<close>, and the
  container's entry in the \<open>containerSig\<close> map.
\<close>

record container =
  children :: "nat list"
  innerHits :: "nat list"
  lastSig :: "string option"

text \<open>\<open>Array.from(new Set(arr))\<close>: the first occurrence of each element, in order.\<close>

fun uniqueFrom :: "'a list \<Rightarrow> 'a list \<Rightarrow> 'a list" where
  "uniqueFrom seen [] = []"
| "uniqueFrom seen (x # xs) =
     (if x \<in> set seen then uniqueFrom seen xs else x # uniqueFrom (x # seen) xs)"

definition unique :: "'a list \<Rightarrow> 'a list" where
  "unique arr = uniqueFrom [] arr"

definition getSortableItems :: "dom \<Rightarrow> container \<Rightarrow> nat list" where
  "getSortableItems d c =
     (let candidates = (if length (children c) < 2 then innerHits c else children c);
          filtered = filter (\<lambda>n. tabLabelKey d n \<noteq> []) (filter (tabLike d) candidates)
      in unique filtered)"

record entry =
  el :: nat
  idx :: nat
  label :: string

definition mkEntry :: "dom \<Rightarrow> nat \<times> nat \<Rightarrow> entry" where
  "mkEntry d = (\<lambda>(i, e). \<lparr>el = e, idx = i, label = tabLabelKey d e\<rparr>)"

text \<open>The comparator of the sort; \<open>localeCompare\<close> here is the one with the options
  \<open>numeric: true, sensitivity: "base"\<close>.\<close>

definition entryCompare :: "(string \<Rightarrow> string \<Rightarrow> int) \<Rightarrow> entry \<Rightarrow> entry \<Rightarrow> int" where
  "entryCompare localeCompare a b =
     (let cmp = localeCompare (label a) (label b)
      in if cmp \<noteq> 0 then cmp else int (idx a) - int (idx b))"

text \<open>\<open>container.appendChild(x)\<close> for a child \<open>x\<close> of the container moves it to the
  end.\<close>

definition appendChild :: "nat \<Rightarrow> nat list \<Rightarrow> nat list" where
  "appendChild x kids = filter (\<lambda>k. k \<noteq> x) kids @ [x]"

text \<open>
  \<open>sortOneContainer\<close> returns its boolean and the container it leaves. The flag
  \<open>isReordering\<close> is set around the loop of \<open>appendChild\<close> and reset after it; it is
  read by the observer only.
\<close>

definition sortOneContainer ::
  "dom \<Rightarrow> (string \<Rightarrow> string \<Rightarrow> int) \<Rightarrow> container \<Rightarrow> bool \<times> container" where
  "sortOneContainer d localeCompare c =
     (let items = getSortableItems d c in
      if length items < 2 then (False, c)
      else
        (let labels = map (tabLabelKey d) items;
             sigNow = join ''|'' labels
         in if lastSig c = Some sigNow then (False, c)
            else
              (let entries = map (mkEntry d) (enumerate 0 items);
                   sorted = sort_by (entryCompare localeCompare) entries;
                   changed = list_ex (\<lambda>(e, it). el e \<noteq> it) (zip sorted items)
               in if \<not> changed then (False, c\<lparr>lastSig := Some sigNow\<rparr>)
                  else
                    (True,
                     c\<lparr>children := fold appendChild (map el sorted) (children c),
                       lastSig := Some (join ''|'' (map label sorted))\<rparr>))))"

text \<open>
  An element is sortable when it passes the two filters. \<open>before xs a b\<close>: \<open>a\<close> stands
  before \<open>b\<close> in \<open>xs\<close>. \<open>labelOrder\<close> is the order the sort is to establish: ascending by
  label, and by the place among the items before the sort where the labels compare equal.
\<close>

definition sortable :: "dom \<Rightarrow> nat \<Rightarrow> bool" where
  "sortable d n = (tabLike d n \<and> tabLabelKey d n \<noteq> [])"

definition before :: "'a list \<Rightarrow> 'a \<Rightarrow> 'a \<Rightarrow> bool" where
  "before xs a b = (\<exists>i j. i < j \<and> j < length xs \<and> xs ! i = a \<and> xs ! j = b)"

definition labelOrder ::
  "dom \<Rightarrow> (string \<Rightarrow> string \<Rightarrow> int) \<Rightarrow> nat list \<Rightarrow> nat \<Rightarrow> nat \<Rightarrow> bool" where
  "labelOrder d localeCompare items a b =
     (localeCompare (tabLabelKey d a) (tabLabelKey d b) < 0
      \<or> (localeCompare (tabLabelKey d a) (tabLabelKey d b) = 0 \<and> before items a b))"

text \<open>
  A side bar of six children: four tabs (two of them labelled alike), an element with no
  label (5) and one that is no tab (6).
\<close>

definition sample_dom :: dom where
  "sample_dom =
     \<lparr>tabLabelKey = (\<lambda>n. if n = 1 then ''queue'' else if n = 2 then ''assets''
                        else if n = 3 then ''nodes'' else if n = 4 then ''assets'' else []),
      tabLike = (\<lambda>n. n \<noteq> 6)\<rparr>"

definition sample_container :: container where
  "sample_container = \<lparr>children = [1, 5, 2, 3, 6, 4], innerHits = [], lastSig = None\<rparr>"

definition sorted_container :: container where
  "sorted_container = \<lparr>children = [5, 6, 2, 4, 3, 1], innerHits = [], lastSig = None\<rparr>"

section \<open>The CivitAI library panel\<close>

subsection \<open>\<open>getPreviewSize\<close>\<close>

text \<open>
  \<open>parseInt(str, 10)\<close>: leading white space is dropped, then a sign, then the longest
  run of decimal digits is read; no digit gives \<open>NaN\<close>. \<open>toNumber\<close> is the Number value
  of the integer read: an infinity from \<open>2^1024 - 2^970\<close> on, and else the double nearest
  to it, for which the integer itself stands (it is that double up to \<open>2^53\<close>, and of a
  larger one only its being above 2048 is used).
\<close>

definition toNumber :: "int \<Rightarrow> jsnum" where
  "toNumber n =
     (if 2 ^ 1024 - 2 ^ 970 \<le> n then PosInfinity
      else if n \<le> - (2 ^ 1024 - 2 ^ 970) then NegInfinity
      else Finite (of_int n))"

definition parseInt :: "string \<Rightarrow> jsnum" where
  "parseInt str =
     (let S = dropWhile isWhiteSpace str;
          sign = (if S \<noteq> [] \<and> hd S = CHR ''-'' then - 1 else 1);
          S = (if S \<noteq> [] \<and> (hd S = CHR ''+'' \<or> hd S = CHR ''-'') then tl S else S);
          Z = takeWhile isDigit S
      in if Z = [] then NaN else toNumber (sign * digitsValue Z))"

text \<open>\<open>localStorage\<close>: \<open>getItem\<close> gives a string, or \<open>null\<close> for a key it does not hold.\<close>

type_synonym storage = "string \<Rightarrow> string option"

definition LS_KEY_SIZE :: string where
  "LS_KEY_SIZE = ''civitai_library_preview_size''"

definition clamp :: "rat \<Rightarrow> rat \<Rightarrow> rat \<Rightarrow> rat" where
  "clamp n a b = max a (min b n)"

text \<open>\<open>raw || "256"\<close> takes the default for \<open>null\<close> and for the empty string.\<close>

definition getPreviewSize :: "storage \<Rightarrow> rat" where
  "getPreviewSize localStorage =
     (let raw = localStorage LS_KEY_SIZE;
          n = parseInt (case raw of None \<Rightarrow> ''256'' | Some r \<Rightarrow> if r = [] then ''256'' else r)
      in case n of Finite r \<Rightarrow> clamp r 128 2048 | _ \<Rightarrow> 256)"

subsection \<open>\<open>normalizeListWithAny\<close>\<close>

text \<open>\<open>v?.name\<close>: the own property of an object; nothing else among the data has one.\<close>

definition nameOf :: "jsval \<Rightarrow> jsval" where
  "nameOf v = (case v of JObject props \<Rightarrow> property props ''name'' | _ \<Rightarrow> JUndefined)"

text \<open>
  The body of the loop up to \<open>s\<close>. \<open>val\<close> is the element if it is a string, and else its
  \<open>name\<close> or, the name being falsy, \<open>String(v)\<close>, which may throw. Then
  \<open>(val || "").trim()\<close> throws a TypeError when \<open>val\<close> is truthy and no string, for data
  has no method \<open>trim\<close>.
\<close>

definition elementVal :: "(rat \<Rightarrow> string) \<Rightarrow> jsval \<Rightarrow> jsval completion" where
  "elementVal nts v =
     (case v of
        JString s \<Rightarrow> Returns (JString s)
      | _ \<Rightarrow>
          if truthy (nameOf v) then Returns (nameOf v)
          else (case ToString nts v of Throws \<Rightarrow> Throws | Returns s \<Rightarrow> Returns (JString s)))"

definition trimmedText :: "(rat \<Rightarrow> string) \<Rightarrow> jsval \<Rightarrow> string completion" where
  "trimmedText nts v =
     (case elementVal nts v of
        Throws \<Rightarrow> Throws
      | Returns val \<Rightarrow>
          if \<not> truthy val then Returns (trim [])
          else (case val of JString s \<Rightarrow> Returns (trim s) | _ \<Rightarrow> Throws))"

fun collect ::
  "(rat \<Rightarrow> string) \<Rightarrow> jsval list \<Rightarrow> string list \<Rightarrow> string set \<Rightarrow> string list completion" where
  "collect nts [] out seen = Returns out"
| "collect nts (v # src) out seen =
     (case trimmedText nts v of
        Throws \<Rightarrow> Throws
      | Returns s \<Rightarrow>
          if s = [] then collect nts src out seen
          else if s \<in> seen then collect nts src out seen
          else collect nts src (out @ [s]) (insert s seen))"

text \<open>\<open>Array.isArray(values) ? values : []\<close>\<close>

definition elementsOf :: "jsval \<Rightarrow> jsval list" where
  "elementsOf values = (case values of JArray xs \<Rightarrow> xs | _ \<Rightarrow> [])"

definition normalizeListWithAny :: "(rat \<Rightarrow> string) \<Rightarrow> jsval \<Rightarrow> string list completion" where
  "normalizeListWithAny nts values = collect nts (elementsOf values) [''Any''] {''Any''}"

text \<open>
  A value is printable when \<open>String\<close> returns for it: it is no object with an own
  property \<open>toString\<close>, and no array that holds one, at any depth. An element is well
  named when it is a string, or its \<open>name\<close> is a non-empty string, or its \<open>name\<close> is falsy
  and it is printable.
\<close>

fun printable :: "jsval \<Rightarrow> bool" where
  "printable (JObject props) = (''toString'' \<notin> fst ` set props)"
| "printable (JArray xs) = list_all printable xs"
| "printable v = True"

definition isString :: "jsval \<Rightarrow> bool" where
  "isString v = (case v of JString _ \<Rightarrow> True | _ \<Rightarrow> False)"

definition wellNamed :: "jsval \<Rightarrow> bool" where
  "wellNamed v = (isString v \<or> (if truthy (nameOf v) then isString (nameOf v) else printable v))"

text \<open>A list with an element whose \<open>name\<close> is a number, and one with an element that
  \<open>String\<close> cannot print.\<close>

definition numbered_values :: jsval where
  "numbered_values = JArray [JString ''SDXL'', JObject [(''name'', JNumber (Finite 1))]]"

definition unprintable_values :: jsval where
  "unprintable_values = JArray [JString ''SDXL'', JObject [(''toString'', JNumber (Finite 1))]]"

definition sample_values :: jsval where
  "sample_values =
     JArray [JString '' SDXL '', JObject [(''name'', JString ''Pony'')], JString ''Any'', JNull,
             JString ''SDXL'', JString ''  '',
             JObject [(''name'', JString []), (''id'', JNumber (Finite 7))], JNumber (Finite 12)]"

section \<open>Sorting with a comparator\<close>

lemma set_insert_by: "set (insert_by cmp x xs) = insert x (set xs)"
  by (induction xs) auto

lemma set_sort_by: "set (sort_by cmp xs) = set xs"
  by (induction xs) (auto simp: sort_by_def set_insert_by)

lemma mset_insert_by: "mset (insert_by cmp x xs) = add_mset x (mset xs)"
  by (induction xs) auto

lemma mset_sort_by: "mset (sort_by cmp xs) = mset xs"
  by (induction xs) (auto simp: sort_by_def mset_insert_by)

lemma sort_by_Cons: "sort_by cmp (x # xs) = insert_by cmp x (sort_by cmp xs)"
  by (simp add: sort_by_def)

lemma sorted_insert_by:
  assumes "consistent_comparator cmp" "sorted_wrt (\<lambda>a b. cmp a b \<le> 0) xs"
  shows "sorted_wrt (\<lambda>a b. cmp a b \<le> 0) (insert_by cmp x xs)"
  using assms(2)
proof (induction xs)
  case Nil
  then show ?case by simp
next
  case (Cons y ys)
  have tot: "\<And>a b. \<not> cmp a b \<le> 0 \<Longrightarrow> cmp b a \<le> 0"
    using assms(1) unfolding consistent_comparator_def by (metis less_le_not_le linorder_le_cases)
  have tr: "\<And>a b c. cmp a b \<le> 0 \<Longrightarrow> cmp b c \<le> 0 \<Longrightarrow> cmp a c \<le> 0"
    using assms(1) unfolding consistent_comparator_def by blast
  show ?case
  proof (cases "cmp x y \<le> 0")
    case True
    then show ?thesis using Cons.prems tr by auto
  next
    case False
    then show ?thesis using Cons tot by (auto simp: set_insert_by)
  qed
qed

lemma sorted_sort_by:
  "consistent_comparator cmp \<Longrightarrow> sorted_wrt (\<lambda>a b. cmp a b \<le> 0) (sort_by cmp xs)"
  by (induction xs) (simp_all add: sort_by_def sorted_insert_by)

lemma sort_by_sorted:
  "sorted_wrt (\<lambda>a b. cmp a b \<le> 0) xs \<Longrightarrow> sort_by cmp xs = xs"
proof (induction xs)
  case Nil
  then show ?case by (simp add: sort_by_def)
next
  case (Cons x xs)
  then have "sort_by cmp xs = xs" by simp
  then show ?case using Cons.prems by (cases xs) (auto simp: sort_by_Cons)
qed

lemma consistent_codeUnitCompare: "consistent_comparator codeUnitCompare"
  by (auto simp: consistent_comparator_def codeUnitCompare_def split: if_splits)

lemma list_all_enumerate:
  "list_all (\<lambda>(i, x). P i x) (enumerate 0 xs) = (\<forall>i < length xs. P i (xs ! i))"
  by (auto simp: list_all_iff in_set_enumerate_eq)

section \<open>Type compatibility: the laws\<close>

text \<open>
  C8. For non-empty type strings \<open>a\<close> and \<open>b\<close>, \<open>typeCompatible\<close> is symmetric; a
  wildcard (\<open>*\<close> or \<open>any\<close>, in any case) is compatible with every non-empty type, on either
  side; two non-empty types that are no wildcards are compatible exactly when they are
  equal ignoring case; a required type that is \<open>null\<close> or empty is compatible with every
  candidate; and a non-empty required type is incompatible with a \<open>null\<close> or empty
  candidate.
\<close>

theorem typeCompatible_laws:
  "(a \<noteq> [] \<and> b \<noteq> [] \<longrightarrow>
      typeCompatible (Some a) (Some b) = typeCompatible (Some b) (Some a))
   \<and> (a \<noteq> [] \<and> b \<noteq> [] \<and> isWildcard a \<longrightarrow>
      typeCompatible (Some a) (Some b) \<and> typeCompatible (Some b) (Some a))
   \<and> (a \<noteq> [] \<and> b \<noteq> [] \<and> \<not> isWildcard a \<and> \<not> isWildcard b \<longrightarrow>
      typeCompatible (Some a) (Some b) = (toLowerCase a = toLowerCase b))
   \<and> typeCompatible None c
   \<and> typeCompatible (Some []) c
   \<and> (a \<noteq> [] \<longrightarrow> \<not> typeCompatible (Some a) None \<and> \<not> typeCompatible (Some a) (Some []))"
  by (auto simp: typeCompatible_def falsy_def isWildcard_def Let_def)

theorem typeCompatible_laws_witness:
  "typeCompatible (Some ''IMAGE'') (Some ''image'')
   \<and> typeCompatible (Some ''image'') (Some ''IMAGE'')
   \<and> \<not> typeCompatible (Some ''IMAGE'') (Some ''LATENT'')
   \<and> typeCompatible (Some ''Any'') (Some ''LATENT'')
   \<and> typeCompatible (Some ''LATENT'') (Some ''Any'')
   \<and> \<not> typeCompatible (Some ''IMAGE'') None"
proof -
  have ne: "''IMAGE'' \<noteq> []" "''image'' \<noteq> []" "''LATENT'' \<noteq> []" "''Any'' \<noteq> []"
    by simp_all
  have w: "isWildcard ''Any''" "\<not> isWildcard ''IMAGE''" "\<not> isWildcard ''image''"
    "\<not> isWildcard ''LATENT''"
    by code_simp+
  have l: "toLowerCase ''IMAGE'' = toLowerCase ''image''"
    "toLowerCase ''IMAGE'' \<noteq> toLowerCase ''LATENT''"
    by code_simp+
  show ?thesis
    using typeCompatible_laws [of "''IMAGE''" "''image''" None]
      typeCompatible_laws [of "''image''" "''IMAGE''" None]
      typeCompatible_laws [of "''IMAGE''" "''LATENT''" None]
      typeCompatible_laws [of "''Any''" "''LATENT''" None]
      ne w l
    by blast
qed

section \<open>The cache of type signatures is built once\<close>

text \<open>
  C6. \<open>ensureIOCacheBuilt\<close> is idempotent: after a first completed call the cache is
  built, and a further call leaves the state, and so the cache map, as it is, whatever the
  host's registry and constructors are by then, and whatever \<open>isOpen\<close> has become.
\<close>

theorem ensureIOCacheBuilt_idempotent:
  "ensureIOCacheBuilt h2 (ensureIOCacheBuilt h1 st) = ensureIOCacheBuilt h1 st
   \<and> ensureIOCacheBuilt h2 ((ensureIOCacheBuilt h1 st)\<lparr>isOpen := b\<rparr>)
       = (ensureIOCacheBuilt h1 st)\<lparr>isOpen := b\<rparr>
   \<and> ioCacheBuilt (ensureIOCacheBuilt h1 st)
   \<and> ioCache (ensureIOCacheBuilt h1 st) \<noteq> None"
  by (simp add: ensureIOCacheBuilt_def split: option.splits)

section \<open>The compatibility search\<close>

lemma highestRequiredIndex_snoc:
  "highestRequiredIndex (xs @ [x]) =
     (if x \<noteq> None then int (length xs) else highestRequiredIndex xs)"
  by (simp add: highestRequiredIndex_def enumerate_append_eq)

lemma highestRequiredIndex_Nil: "highestRequiredIndex [] = - 1"
  by (simp add: highestRequiredIndex_def)

lemma highestRequiredIndex_less:
  "(\<not> int n < highestRequiredIndex arr + 1) =
     (\<forall>i < length arr. arr ! i \<noteq> None \<longrightarrow> i < n)"
proof (induction arr rule: rev_induct)
  case Nil
  then show ?case by (simp add: highestRequiredIndex_Nil)
next
  case (snoc x xs)
  show ?case
  proof (cases "x = None")
    case True
    then show ?thesis
      using snoc by (auto simp: highestRequiredIndex_snoc nth_append less_Suc_eq)
  next
    case False
    then show ?thesis
      by (auto simp: highestRequiredIndex_snoc nth_append less_Suc_eq)
  qed
qed

lemma matchRequired_iff:
  "matchRequired required candidate =
     (\<forall>i < length required. required ! i \<noteq> None \<longrightarrow>
        typeCompatible (required ! i) (typeAt candidate i))"
  unfolding matchRequired_def list_all_enumerate by auto

lemma requiredIn_connected: "requiredIn g inp \<noteq> None \<Longrightarrow> connectedIn g inp"
  by (auto simp: requiredIn_def connectedIn_def split: option.splits)

lemma requiredOut_iff:
  "(requiredOut out \<noteq> None) = (connectedOut out \<and> out_type out \<noteq> None)"
  by (simp add: requiredOut_def connectedOut_def)

lemma requiredOut_type: "requiredOut out \<noteq> None \<Longrightarrow> requiredOut out = out_type out"
  by (simp add: requiredOut_def split: if_splits)

lemma typeAt_nth: "i < length xs \<Longrightarrow> typeAt xs i = xs ! i"
  by (simp add: typeAt_def)

text \<open>The four tests of the loop over the cache say that the signature is compatible
  with the wiring.\<close>

lemma candidate_test_iff:
  "(\<not> int (length (inTypes sig)) < highestRequiredIndex (map (requiredIn g) (inputs oldNode)) + 1
    \<and> \<not> int (length (outTypes sig)) < highestRequiredIndex (map requiredOut (outputs oldNode)) + 1
    \<and> matchRequired (map (requiredIn g) (inputs oldNode)) (inTypes sig)
    \<and> matchRequired (map requiredOut (outputs oldNode)) (outTypes sig))
   = wiringCompatible g oldNode sig"
  unfolding highestRequiredIndex_less matchRequired_iff wiringCompatible_def list_all_enumerate
  using requiredIn_connected requiredOut_iff requiredOut_type
  by (auto simp: typeAt_nth)

lemma getValid_filter:
  assumes "ioCache st = Some cache"
  shows "getValidReplacementsFromConnections localeCompare st g oldNode =
     sort_by localeCompare
       (map fst (filter (\<lambda>(typeName, sig). typeName \<noteq> node_type oldNode
                           \<and> wiringCompatible g oldNode sig) cache))"
proof -
  have "(\<lambda>(typeName, sig).
            typeName \<noteq> node_type oldNode
            \<and> \<not> int (length (inTypes sig)) < highestRequiredIndex (map (requiredIn g) (inputs oldNode)) + 1
            \<and> \<not> int (length (outTypes sig)) < highestRequiredIndex (map requiredOut (outputs oldNode)) + 1
            \<and> matchRequired (map (requiredIn g) (inputs oldNode)) (inTypes sig)
            \<and> matchRequired (map requiredOut (outputs oldNode)) (outTypes sig))
        = (\<lambda>(typeName, sig). typeName \<noteq> node_type oldNode \<and> wiringCompatible g oldNode sig)"
    by (simp only: candidate_test_iff)
  then show ?thesis
    using assms by (simp add: getValidReplacementsFromConnections_def Let_def)
qed

lemma sample_cache:
  "ioCache sample_state =
     Some [(''LoadImage'', \<lparr>inTypes = [], outTypes = [Some ''IMAGE'', Some ''MASK'']\<rparr>),
           (''Blur'', \<lparr>inTypes = [Some ''IMAGE''], outTypes = [Some ''IMAGE'']\<rparr>),
           (''Sharpen'', \<lparr>inTypes = [Some ''image''], outTypes = [Some ''*'']\<rparr>),
           (''Preview'', \<lparr>inTypes = [Some ''IMAGE''], outTypes = []\<rparr>)]"
  by code_simp

text \<open>The cache that \<open>ensureIOCacheBuilt\<close> builds holds, under each registered type
  that can be instantiated, the signature of the node made for it, and nothing else.\<close>

lemma map_fst_map_set:
  "map fst (map_set k v m) = (if k \<in> set (map fst m) then map fst m else map fst m @ [k])"
  by (induction m) (fastforce simp: image_iff)+

lemma distinct_map_set: "distinct (map fst m) \<Longrightarrow> distinct (map fst (map_set k v m))"
  by (simp add: map_fst_map_set)

lemma map_of_map_set: "map_of (map_set k v m) = (map_of m)(k \<mapsto> v)"
  by (induction m) (auto simp: fun_eq_iff)

lemma cacheType_step:
  "cacheType h t cache =
     (case safeCreateNode h t of None \<Rightarrow> cache | Some n \<Rightarrow> map_set t (signatureOf n) cache)"
  by (simp add: cacheType_def signatureOf_def split: option.splits)

lemma fold_cacheType:
  assumes "distinct (map fst acc)"
  shows "distinct (map fst (fold (cacheType h) reg acc))
         \<and> map_of (fold (cacheType h) reg acc) =
             (\<lambda>t. if t \<in> set reg \<and> safeCreateNode h t \<noteq> None
                  then map_option signatureOf (safeCreateNode h t) else map_of acc t)"
  using assms
proof (induction reg arbitrary: acc)
  case Nil
  then show ?case by simp
next
  case (Cons t reg)
  have d: "distinct (map fst (cacheType h t acc))"
    using Cons.prems by (simp add: cacheType_step distinct_map_set split: option.splits)
  have m: "map_of (cacheType h t acc) =
             (\<lambda>u. if u = t \<and> safeCreateNode h t \<noteq> None
                  then map_option signatureOf (safeCreateNode h t) else map_of acc u)"
    by (auto simp: cacheType_step map_of_map_set fun_eq_iff split: option.splits)
  show ?case
    using Cons.IH [OF d] by (auto simp: m fun_eq_iff)
qed

lemma built_cache:
  assumes "\<not> (ioCacheBuilt st \<and> ioCache st \<noteq> None)"
  shows "\<exists>cache. ioCache (ensureIOCacheBuilt h st) = Some cache
           \<and> (\<forall>t sig. ((t, sig) \<in> set cache) =
                 (t \<in> set (registeredTypes h)
                  \<and> (\<exists>n. safeCreateNode h t = Some n \<and> sig = signatureOf n)))"
proof (cases "registered_node_types h")
  case None
  then show ?thesis
    using assms by (auto simp: ensureIOCacheBuilt_def registeredTypes_def)
next
  case (Some reg)
  let ?cache = "fold (cacheType h) reg []"
  have c: "ioCache (ensureIOCacheBuilt h st) = Some ?cache"
    using assms Some by (auto simp: ensureIOCacheBuilt_def)
  have f: "distinct (map fst ?cache)"
    "map_of ?cache = (\<lambda>t. if t \<in> set reg \<and> safeCreateNode h t \<noteq> None
                  then map_option signatureOf (safeCreateNode h t) else None)"
    using fold_cacheType [of "[]" h reg] by (simp_all add: fun_eq_iff)
  have "((t, sig) \<in> set ?cache) =
          (t \<in> set reg \<and> (\<exists>n. safeCreateNode h t = Some n \<and> sig = signatureOf n))" for t sig
    using map_of_eq_Some_iff [OF f(1), of t sig] by (auto simp: f(2) split: if_splits)
  then show ?thesis
    using c Some by (simp add: registeredTypes_def)
qed

text \<open>
  C1, as the code has it. When \<open>ensureIOCacheBuilt\<close> has built the cache from the host's
  registry, and \<open>localeCompare\<close> is a consistent comparator, the search returns exactly
  the types that were registered then and could be instantiated, other than the node's
  own, whose signature (the slot types of the node made for the cache) is compatible with
  the wiring: at every connected input slot whose required type (the origin output's
  type, or else the slot's own) is not \<open>null\<close>, and at every connected output slot whose
  type is not \<open>null\<close>, the candidate has a slot, of a compatible type. (A slot at each
  such index is one more slot than the highest such index.) The list is sorted ascending
  by \<open>localeCompare\<close>. A connected slot with no type asks for nothing, not even for a slot
  at its index.
\<close>

theorem getValidReplacements_exact:
  assumes "\<not> (ioCacheBuilt st \<and> ioCache st \<noteq> None)"
    and "consistent_comparator localeCompare"
  shows "set (getValidReplacementsFromConnections localeCompare (ensureIOCacheBuilt h st) g oldNode) =
           {typeName \<in> set (registeredTypes h).
              typeName \<noteq> node_type oldNode
              \<and> (\<exists>n. safeCreateNode h typeName = Some n
                     \<and> wiringCompatible g oldNode (signatureOf n))}
         \<and> sorted_wrt (\<lambda>a b. localeCompare a b \<le> 0)
             (getValidReplacementsFromConnections localeCompare (ensureIOCacheBuilt h st) g oldNode)"
proof -
  obtain cache where c: "ioCache (ensureIOCacheBuilt h st) = Some cache"
    and k: "\<And>t sig. ((t, sig) \<in> set cache) =
                 (t \<in> set (registeredTypes h)
                  \<and> (\<exists>n. safeCreateNode h t = Some n \<and> sig = signatureOf n))"
    using built_cache [OF assms(1), of h] by blast
  have "set (map fst (filter (\<lambda>(typeName, sig). typeName \<noteq> node_type oldNode
                           \<and> wiringCompatible g oldNode sig) cache)) =
           {typeName \<in> set (registeredTypes h).
              typeName \<noteq> node_type oldNode
              \<and> (\<exists>n. safeCreateNode h typeName = Some n
                     \<and> wiringCompatible g oldNode (signatureOf n))}"
    using k by force
  then show ?thesis
    unfolding getValid_filter [OF c]
    using sorted_sort_by [OF assms(2)] by (simp add: set_sort_by)
qed

theorem getValidReplacements_exact_witness:
  "set (getValidReplacementsFromConnections codeUnitCompare
          (ensureIOCacheBuilt sample_host fresh_state) sample_graph sample_old) =
     {typeName \<in> set (registeredTypes sample_host).
        typeName \<noteq> node_type sample_old
        \<and> (\<exists>n. safeCreateNode sample_host typeName = Some n
               \<and> wiringCompatible sample_graph sample_old (signatureOf n))}
   \<and> sorted_wrt (\<lambda>a b. codeUnitCompare a b \<le> 0)
       (getValidReplacementsFromConnections codeUnitCompare
          (ensureIOCacheBuilt sample_host fresh_state) sample_graph sample_old)
   \<and> getValidReplacementsFromConnections codeUnitCompare
         (ensureIOCacheBuilt sample_host fresh_state) sample_graph sample_old
       = [''Sharpen'']
   \<and> registeredTypes sample_host = [''LoadImage'', ''Blur'', ''Sharpen'', ''Preview'', ''Broken'']"
proof -
  have f: "\<not> (ioCacheBuilt fresh_state \<and> ioCache fresh_state \<noteq> None)"
    by (simp add: fresh_state_def)
  have v: "getValidReplacementsFromConnections codeUnitCompare
         (ensureIOCacheBuilt sample_host fresh_state) sample_graph sample_old
       = [''Sharpen'']"
    by code_simp
  have r: "registeredTypes sample_host = [''LoadImage'', ''Blur'', ''Sharpen'', ''Preview'', ''Broken'']"
    by code_simp
  show ?thesis
    using getValidReplacements_exact [OF f consistent_codeUnitCompare,
        of sample_host sample_graph sample_old] v r
    by simp
qed

text \<open>
  C1, as the claim words it (every registered type, and every connected slot), fails
  twice. Where a connected slot has no type: the relay's input is linked, the link's
  origin output and the slot itself are untyped, and the search returns the source and
  the note, which have no input slot at index 0. And where a type is registered after the
  cache was built: \<open>Invert\<close> is registered and compatible with the wiring of the filter,
  and the search, over the cache of before, does not return it.
\<close>

theorem getValidReplacements_untyped_counterexample:
  "getValidReplacementsFromConnections codeUnitCompare untyped_state untyped_graph untyped_old
     = [''Note'', ''Source'']
   \<and> connectedIn untyped_graph (inputs untyped_old ! 0)
   \<and> \<not> connectedCompatible untyped_graph untyped_old \<lparr>inTypes = [], outTypes = []\<rparr>
   \<and> getValidReplacementsFromConnections codeUnitCompare
         (ensureIOCacheBuilt later_host sample_state) sample_graph sample_old
       = [''Sharpen'']
   \<and> ''Invert'' \<in> set (registeredTypes later_host)
   \<and> safeCreateNode later_host ''Invert'' = Some invert_node
   \<and> ''Invert'' \<noteq> node_type sample_old
   \<and> connectedCompatible sample_graph sample_old (signatureOf invert_node)
   \<and> wiringCompatible sample_graph sample_old (signatureOf invert_node)"
  by code_simp

lemma unwired_compatible:
  assumes "\<forall>inp \<in> set (inputs oldNode). in_link inp = None"
    and "\<forall>out \<in> set (outputs oldNode). out_links out = []"
  shows "wiringCompatible g oldNode sig"
  using assms
  by (auto simp: wiringCompatible_def list_all_enumerate connectedIn_def connectedOut_def)

text \<open>
  C5. For a node none of whose input slots has a link and none of whose output slots
  has a non-empty \<open>links\<close> array, the search returns every type of the cache but the
  node's own (sorted): unconnected slots ask for no type and for no slot.
\<close>

theorem getValidReplacements_unwired:
  assumes "ioCache st = Some cache"
    and "\<forall>inp \<in> set (inputs oldNode). in_link inp = None"
    and "\<forall>out \<in> set (outputs oldNode). out_links out = []"
  shows "getValidReplacementsFromConnections localeCompare st g oldNode =
           sort_by localeCompare (filter (\<lambda>typeName. typeName \<noteq> node_type oldNode) (map fst cache))
         \<and> set (getValidReplacementsFromConnections localeCompare st g oldNode) =
           fst ` set cache - {node_type oldNode}"
proof -
  have "filter (\<lambda>(typeName, sig). typeName \<noteq> node_type oldNode \<and> wiringCompatible g oldNode sig) cache
        = filter (\<lambda>(typeName, sig). typeName \<noteq> node_type oldNode) cache"
    using unwired_compatible [OF assms(2,3)] by simp
  moreover have "map fst (filter (\<lambda>(typeName, sig). typeName \<noteq> node_type oldNode) cache)
        = filter (\<lambda>typeName. typeName \<noteq> node_type oldNode) (map fst cache)"
    by (induction cache) auto
  ultimately have eq: "getValidReplacementsFromConnections localeCompare st g oldNode =
           sort_by localeCompare (filter (\<lambda>typeName. typeName \<noteq> node_type oldNode) (map fst cache))"
    using getValid_filter [OF assms(1)] by simp
  show ?thesis
    unfolding eq by (auto simp: set_sort_by)
qed

theorem getValidReplacements_unwired_witness:
  "getValidReplacementsFromConnections codeUnitCompare sample_state sample_graph unwired
     = [''LoadImage'', ''Preview'', ''Sharpen'']
   \<and> set (getValidReplacementsFromConnections codeUnitCompare sample_state sample_graph unwired)
     = {''LoadImage'', ''Sharpen'', ''Preview''}"
proof -
  have i: "\<forall>inp \<in> set (inputs unwired). in_link inp = None"
    by (simp add: unwired_def mkNode_def slotIn_def)
  have out: "\<forall>out \<in> set (outputs unwired). out_links out = []"
    by (simp add: unwired_def mkNode_def slotOut_def)
  have s: "sort_by codeUnitCompare
             (filter (\<lambda>typeName. typeName \<noteq> node_type unwired)
                [''LoadImage'', ''Blur'', ''Sharpen'', ''Preview''])
           = [''LoadImage'', ''Preview'', ''Sharpen'']"
    by code_simp
  have t: "node_type unwired = ''Blur''"
    by (simp add: unwired_def mkNode_def)
  show ?thesis
    using getValidReplacements_unwired [OF sample_cache i out, of codeUnitCompare sample_graph] s t
    by auto
qed

section \<open>The swap\<close>

text \<open>
  C3. When the chosen type cannot be instantiated (\<open>createNode\<close> throws or returns
  \<open>null\<close>), \<open>replaceNode\<close> returns with the graph as it was: no node added or removed, no
  link made or lost.
\<close>

theorem replaceNode_uninstantiable:
  "createNode h newType = Throws \<or> createNode h newType = Returns None \<Longrightarrow>
   replaceNode h g oldNode newType = Returns g"
  by (auto simp: replaceNode_def safeCreateNode_def)

theorem replaceNode_uninstantiable_witness:
  "replaceNode sample_host sample_graph sample_old ''Broken'' = Returns sample_graph
   \<and> replaceNode sample_host sample_graph sample_old ''Reroute'' = Returns sample_graph"
proof -
  have t: "createNode sample_host ''Broken'' = Throws"
    by (simp add: sample_host_def)
  have n: "createNode sample_host ''Reroute'' = Returns None"
    by code_simp
  show ?thesis
    using replaceNode_uninstantiable [of sample_host "''Broken''" sample_graph sample_old]
      replaceNode_uninstantiable [of sample_host "''Reroute''" sample_graph sample_old] t n
    by simp
qed

lemma getNodeById_id: "getNodeById g i = Some n \<Longrightarrow> node_id n = i"
  by (auto simp: getNodeById_def dest: find_Some_iff [THEN iffD1])



lemma reconnectInput_step:
  "reconnectInput h newId l g = (if preservableIn g newId l then attemptInput h newId l g else g)"
  by (auto simp: reconnectInput_def preservableIn_def attemptInput_def getNodeById_id
      split: option.splits)

lemma reconnectOutput_step:
  "reconnectOutput h newId l g = (if preservableOut g newId l then attemptOutput h newId l g else g)"
  by (auto simp: reconnectOutput_def preservableOut_def attemptOutput_def getNodeById_id
      split: option.splits)






lemma sample_connect_nodes: "nodes (snd (sample_connect a i b j g)) = nodes g"
  by (simp add: sample_connect_def split: option.splits)

lemma sample_connect_getNodeById:
  "getNodeById (snd (node_connect sample_host a i b j g)) k = getNodeById g k"
  by (simp add: getNodeById_def sample_host_def sample_connect_nodes)


lemma sample_keeps_geometry: "connect_keeps_geometry sample_host"
  by (simp add: connect_keeps_geometry_def sample_connect_getNodeById)

lemma find_filter_other:
  "k \<noteq> i \<Longrightarrow> find (\<lambda>n. node_id n = k) (filter (\<lambda>n. node_id n \<noteq> i) ns) = find (\<lambda>n. node_id n = k) ns"
  by (induction ns) auto

lemma sample_remove_keeps: "remove_keeps_geometry sample_host"
  by (auto simp: remove_keeps_geometry_def sample_host_def getNodeById_def find_filter_other)

lemma sample_create: "safeCreateNode sample_host ''Sharpen'' = Some sample_new"
  by code_simp

lemma sample_add: "graph_add sample_host sample_new sample_graph = Returns (5, sample_added)"
  by code_simp

lemma sample_entered: "getNodeById sample_added 5 = Some (sample_new\<lparr>node_id := 5\<rparr>)"
  by code_simp

text \<open>What \<open>normalizePos\<close> computes, and that it leaves its own result as it is.\<close>

lemma finiteOr0_not: "\<not> isFinite n \<Longrightarrow> finiteOr0 n = 0"
  by (cases n) (simp_all add: isFinite_def finiteOr0_def)

lemma finiteOr0_finite: "isFinite n \<Longrightarrow> Finite (finiteOr0 n) = n"
  by (cases n) (simp_all add: isFinite_def finiteOr0_def)

lemma normalizePos_spec:
  "normalizePos h p =
     (case Number h (fst (coordsOf p)) of
        Throws \<Rightarrow> Throws
      | Returns nx \<Rightarrow>
          (case Number h (snd (coordsOf p)) of
             Throws \<Rightarrow> Throws
           | Returns ny \<Rightarrow>
               Returns (JArray [JNumber (Finite (finiteOr0 nx)), JNumber (Finite (finiteOr0 ny))])))"
  by (cases p)
     (auto simp: normalizePos_def coordsOf_def Let_def finiteOr0_not finiteOr0_finite
       split: completion.splits)

lemma normalizePos_Returns:
  assumes "normalizePos h p = Returns q"
  shows "\<exists>nx ny. Number h (fst (coordsOf p)) = Returns nx
           \<and> Number h (snd (coordsOf p)) = Returns ny
           \<and> q = JArray [JNumber (Finite (finiteOr0 nx)), JNumber (Finite (finiteOr0 ny))]"
  using assms unfolding normalizePos_spec [of h p] by (auto split: completion.splits)

lemma normalizePos_again:
  "normalizePos h (JArray [JNumber (Finite a), JNumber (Finite b)])
     = Returns (JArray [JNumber (Finite a), JNumber (Finite b)])"
  by (simp add: normalizePos_spec coordsOf_def elementAt_def Number_def ToNumber_def finiteOr0_def)

text \<open>Strings and booleans are converted, an infinity and a missing coordinate become 0,
  and an object that has no primitive value makes \<open>normalizePos\<close> throw.\<close>

lemma normalizePos_examples:
  "normalizePos sample_host (JObject [(''x'', JString ''12''), (''1'', JNumber PosInfinity)])
     = Returns (JArray [JNumber (Finite 12), JNumber (Finite 0)])"
  "normalizePos sample_host (JArray [JBool True])
     = Returns (JArray [JNumber (Finite 1), JNumber (Finite 0)])"
  "normalizePos sample_host (JString ''10,20'')
     = Returns (JArray [JNumber (Finite 0), JNumber (Finite 0)])"
  "normalizePos sample_host (JArray [JObject [(''toString'', JNull)], JNumber (Finite 1)]) = Throws"
  by code_simp+

lemma replaceNode_steps:
  assumes "safeCreateNode h newType = Some newNode"
    and "graph_add h newNode g = Returns (newId, g1)"
  shows "replaceNode h g oldNode newType =
           (case normalizePos h (node_pos oldNode) of
              Throws \<Rightarrow> Throws
            | Returns p \<Rightarrow>
                graph_remove h (node_id oldNode)
                  (reconnectOutputs h newId (snapshotOutputs g oldNode)
                     (reconnectInputs h newId (snapshotInputs g oldNode)
                        (place newId p (node_size oldNode) g1))))"
proof (cases "normalizePos h (node_pos oldNode)")
  case Throws
  then show ?thesis using assms by (simp add: replaceNode_def)
next
  case (Returns p)
  then have "normalizePos h p = Returns p"
    using normalizePos_Returns [OF Returns] normalizePos_again by auto
  then show ?thesis using assms Returns by (simp add: replaceNode_def Let_def)
qed


lemma sample_pos:
  "normalizePos sample_host (node_pos sample_old) = Returns (JArray [JNumber (Finite 0), JNumber (Finite 40)])"
  by code_simp


lemma find_map_id:
  assumes "\<And>n. node_id (f n) = node_id n"
  shows "find (\<lambda>n. node_id n = k) (map f ns) = map_option f (find (\<lambda>n. node_id n = k) ns)"
  by (induction ns) (simp_all add: assms)

lemma getNodeById_update:
  assumes "\<And>n. node_id (f n) = node_id n"
  shows "getNodeById (update_node i f g) k =
           map_option (\<lambda>n. if node_id n = i then f n else n) (getNodeById g k)"
proof -
  have "\<And>n. node_id (if node_id n = i then f n else n) = node_id n"
    by (simp add: assms)
  then show ?thesis
    unfolding getNodeById_def update_node_def by (simp add: find_map_id)
qed

lemma place_new:
  assumes "getNodeById g1 newId = Some n1"
  shows "\<exists>n2. getNodeById (place newId p sz g1) newId = Some n2
           \<and> node_pos n2 = p
           \<and> node_size n2 = (case sz of None \<Rightarrow> node_size n1
                             | Some s \<Rightarrow> (case node_size n1 of None \<Rightarrow> None | Some _ \<Rightarrow> Some s))"
proof -
  have i: "node_id n1 = newId" using assms by (rule getNodeById_id)
  have a: "getNodeById (update_node newId (\<lambda>n. n\<lparr>node_pos := p\<rparr>) g1) newId
            = Some (n1\<lparr>node_pos := p\<rparr>)"
    using assms i by (simp add: getNodeById_update)
  show ?thesis
  proof (cases sz)
    case None
    then show ?thesis using a by (simp add: place_def)
  next
    case (Some s)
    have k: "\<And>n. node_id (case node_size n of None \<Rightarrow> n | Some _ \<Rightarrow> n\<lparr>node_size := Some s\<rparr>) = node_id n"
      by (simp split: option.splits)
    show ?thesis
      using a i Some by (simp add: place_def getNodeById_update [OF k] split: option.splits)
  qed
qed

lemma reconnectInput_geometry:
  "connect_keeps_geometry h \<Longrightarrow>
   map_option geometry (getNodeById (reconnectInput h newId l g) k) = map_option geometry (getNodeById g k)"
  by (simp add: reconnectInput_step attemptInput_def connect_keeps_geometry_def)

lemma reconnectOutput_geometry:
  "connect_keeps_geometry h \<Longrightarrow>
   map_option geometry (getNodeById (reconnectOutput h newId l g) k) = map_option geometry (getNodeById g k)"
  by (simp add: reconnectOutput_step attemptOutput_def connect_keeps_geometry_def)

lemma reconnectInputs_geometry:
  "connect_keeps_geometry h \<Longrightarrow>
   map_option geometry (getNodeById (reconnectInputs h newId ls g) k) = map_option geometry (getNodeById g k)"
  by (induction ls arbitrary: g) (simp_all add: reconnectInputs_def reconnectInput_geometry)

lemma reconnectOutputs_geometry:
  "connect_keeps_geometry h \<Longrightarrow>
   map_option geometry (getNodeById (reconnectOutputs h newId ls g) k) = map_option geometry (getNodeById g k)"
  by (induction ls arbitrary: g) (simp_all add: reconnectOutputs_def reconnectOutput_geometry)

text \<open>
  C4. When \<open>replaceNode\<close> has made and entered the new node and returns, and the host
  keeps the place and size of a node through \<open>connect\<close> and through the removal of
  another node (whose links to it the removal may cut), the new node's \<open>pos\<close> is the old
  node's \<open>pos\<close> normalised: the pair of the two coordinates read from the array or the
  object, each turned into a number by \<open>Number\<close> and made 0 when that is no finite
  number, as it is for a missing coordinate. When the old and the new node both have a
  size, the new node's size is the old node's.
\<close>

theorem replaceNode_in_place:
  assumes "safeCreateNode h newType = Some newNode"
    and "graph_add h newNode g = Returns (newId, g1)"
    and "getNodeById g1 newId = Some n1"
    and "node_size n1 = node_size newNode"
    and "newId \<noteq> node_id oldNode"
    and "connect_keeps_geometry h"
    and "remove_keeps_geometry h"
    and "replaceNode h g oldNode newType = Returns g'"
  shows "\<exists>n' nx ny. getNodeById g' newId = Some n'
           \<and> Number h (fst (coordsOf (node_pos oldNode))) = Returns nx
           \<and> Number h (snd (coordsOf (node_pos oldNode))) = Returns ny
           \<and> node_pos n' = JArray [JNumber (Finite (finiteOr0 nx)), JNumber (Finite (finiteOr0 ny))]
           \<and> normalizePos h (node_pos oldNode) = Returns (node_pos n')
           \<and> Number h JUndefined = Returns NaN \<and> finiteOr0 NaN = 0
           \<and> finiteOr0 PosInfinity = 0 \<and> finiteOr0 NegInfinity = 0
           \<and> (\<forall>s. node_size oldNode = Some s \<longrightarrow> node_size newNode \<noteq> None \<longrightarrow> node_size n' = Some s)"
proof -
  obtain p where p: "normalizePos h (node_pos oldNode) = Returns p"
    and r: "graph_remove h (node_id oldNode)
              (reconnectOutputs h newId (snapshotOutputs g oldNode)
                 (reconnectInputs h newId (snapshotInputs g oldNode)
                    (place newId p (node_size oldNode) g1))) = Returns g'"
    using assms(8) unfolding replaceNode_steps [OF assms(1,2)]
    by (auto split: completion.splits)
  let ?placed = "place newId p (node_size oldNode) g1"
  let ?re = "reconnectOutputs h newId (snapshotOutputs g oldNode)
               (reconnectInputs h newId (snapshotInputs g oldNode) ?placed)"
  obtain nx ny where n: "Number h (fst (coordsOf (node_pos oldNode))) = Returns nx"
    "Number h (snd (coordsOf (node_pos oldNode))) = Returns ny"
    "p = JArray [JNumber (Finite (finiteOr0 nx)), JNumber (Finite (finiteOr0 ny))]"
    using normalizePos_Returns [OF p] by blast
  obtain n2 where n2: "getNodeById ?placed newId = Some n2" "node_pos n2 = p"
    "node_size n2 = (case node_size oldNode of None \<Rightarrow> node_size n1
                      | Some s \<Rightarrow> (case node_size n1 of None \<Rightarrow> None | Some _ \<Rightarrow> Some s))"
    using place_new [OF assms(3)] by blast
  have "map_option geometry (getNodeById ?re newId) = map_option geometry (getNodeById ?placed newId)"
    by (simp add: reconnectOutputs_geometry [OF assms(6)] reconnectInputs_geometry [OF assms(6)])
  moreover have "map_option geometry (getNodeById g' newId) = map_option geometry (getNodeById ?re newId)"
    using assms(7) r assms(5) unfolding remove_keeps_geometry_def by blast
  ultimately obtain n3 where n3: "getNodeById g' newId = Some n3" "geometry n3 = geometry n2"
    using n2(1) by auto
  have pos: "node_pos n3 = p"
    using n3(2) n2(2) by (simp add: geometry_def)
  have sz: "\<forall>s. node_size oldNode = Some s \<longrightarrow> node_size newNode \<noteq> None \<longrightarrow> node_size n3 = Some s"
    using n3(2) n2(3) assms(4) by (auto simp: geometry_def split: option.splits)
  have u: "Number h JUndefined = Returns NaN"
    by (simp add: Number_def ToNumber_def)
  show ?thesis
    using n3(1) n pos sz p u by (auto simp: finiteOr0_def)
qed

theorem replaceNode_in_place_witness:
  "(case replaceNode sample_host sample_graph sample_old ''Sharpen'' of
      Throws \<Rightarrow> False
    | Returns g' \<Rightarrow>
        (case getNodeById g' 5 of
           None \<Rightarrow> False
         | Some n' \<Rightarrow>
             node_pos n' = JArray [JNumber (Finite 0), JNumber (Finite 40)]
             \<and> node_size n' = Some (JNumber (Finite 150), JNumber (Finite 60))))"
proof -
  have "case replaceNode sample_host sample_graph sample_old ''Sharpen'' of
          Throws \<Rightarrow> False | Returns g' \<Rightarrow> True"
    by code_simp
  then obtain g' where r: "replaceNode sample_host sample_graph sample_old ''Sharpen'' = Returns g'"
    by (cases "replaceNode sample_host sample_graph sample_old ''Sharpen''") auto
  have ne: "5 \<noteq> node_id sample_old"
    by (simp add: sample_old_def mkNode_def)
  obtain n' where n': "getNodeById g' 5 = Some n'"
      "normalizePos sample_host (node_pos sample_old) = Returns (node_pos n')"
      "\<forall>s. node_size sample_old = Some s \<longrightarrow> node_size sample_new \<noteq> None \<longrightarrow> node_size n' = Some s"
    using replaceNode_in_place [OF sample_create sample_add sample_entered _ ne sample_keeps_geometry
        sample_remove_keeps r]
    by auto
  have s: "node_size sample_old = Some (JNumber (Finite 150), JNumber (Finite 60))"
    "node_size sample_new \<noteq> None"
    by (simp_all add: sample_old_def sample_new_def mkNode_def num_def)
  show ?thesis
    using r n' sample_pos s by simp
qed

section \<open>Sidebar sorting\<close>

lemma set_uniqueFrom: "set (uniqueFrom seen xs) \<subseteq> set xs"
  by (induction seen xs rule: uniqueFrom.induct) auto

lemma uniqueFrom_seen: "set (uniqueFrom seen xs) \<inter> set seen = {}"
  by (induction seen xs rule: uniqueFrom.induct) auto

lemma distinct_uniqueFrom: "distinct (uniqueFrom seen xs)"
proof (induction seen xs rule: uniqueFrom.induct)
  case (1 seen)
  then show ?case by simp
next
  case (2 seen x xs)
  then show ?case using uniqueFrom_seen [of "x # seen" xs] by auto
qed

lemma uniqueFrom_distinct:
  "distinct xs \<Longrightarrow> set xs \<inter> set seen = {} \<Longrightarrow> uniqueFrom seen xs = xs"
  by (induction seen xs rule: uniqueFrom.induct) auto

lemma unique_distinct: "distinct xs \<Longrightarrow> unique xs = xs"
  by (simp add: unique_def uniqueFrom_distinct)

lemma length_unique_le:
  assumes "set xs \<subseteq> set kids"
  shows "length (unique xs) \<le> length kids"
proof -
  have "length (unique xs) = card (set (unique xs))"
    using distinct_uniqueFrom [of "[]" xs] by (simp add: unique_def distinct_card)
  also have "\<dots> \<le> card (set kids)"
    using set_uniqueFrom [of "[]" xs] assms by (auto simp: unique_def intro!: card_mono)
  also have "\<dots> \<le> length kids" by (rule card_length)
  finally show ?thesis .
qed

lemma getSortableItems_few:
  assumes "length (children c) < 2" "set (innerHits c) \<subseteq> set (children c)"
  shows "length (getSortableItems d c) < 2"
proof -
  have "set (filter (\<lambda>n. tabLabelKey d n \<noteq> []) (filter (tabLike d) (innerHits c))) \<subseteq> set (children c)"
    using assms(2) by auto
  then have "length (getSortableItems d c) \<le> length (children c)"
    using assms(1) by (simp add: getSortableItems_def length_unique_le)
  then show ?thesis using assms(1) by simp
qed

lemma getSortableItems_many:
  assumes "\<not> length (children c) < 2" "distinct (children c)"
  shows "getSortableItems d c = filter (sortable d) (children c)"
proof -
  have "filter (\<lambda>n. tabLabelKey d n \<noteq> []) (filter (tabLike d) (children c)) = filter (sortable d) (children c)"
    by (auto simp: sortable_def intro: filter_cong)
  then show ?thesis
    using assms by (simp add: getSortableItems_def unique_distinct)
qed

lemma fold_appendChild:
  "distinct ys \<Longrightarrow> fold appendChild ys kids = filter (\<lambda>k. k \<notin> set ys) kids @ ys"
proof (induction ys arbitrary: kids)
  case Nil
  then show ?case by simp
next
  case (Cons y ys)
  have "filter (\<lambda>k. k \<notin> set ys) (filter (\<lambda>k. k \<noteq> y) kids) = filter (\<lambda>k. k \<notin> set (y # ys)) kids"
    by (auto intro: filter_cong)
  then show ?case using Cons by (simp add: appendChild_def)
qed

lemma changed_iff:
  "length xs = length ys \<Longrightarrow> list_ex (\<lambda>(e, it). g e \<noteq> it) (zip xs ys) = (map g xs \<noteq> ys)"
  by (induction xs ys rule: list_induct2) auto

lemma map_el_entries: "map el (map (mkEntry d) (enumerate n items)) = items"
  by (induction items arbitrary: n) (simp_all add: mkEntry_def)

lemma map_label_entries: "map label (map (mkEntry d) (enumerate n items)) = map (tabLabelKey d) items"
  by (induction items arbitrary: n) (simp_all add: mkEntry_def)

lemma map_idx_entries: "map idx (map (mkEntry d) (enumerate n items)) = [n..<n + length items]"
  by (induction items arbitrary: n) (simp_all add: mkEntry_def upt_rec)

lemma entry_props:
  assumes "e \<in> set (map (mkEntry d) (enumerate 0 items))"
  shows "idx e < length items \<and> items ! idx e = el e \<and> label e = tabLabelKey d (el e)"
  using assms by (auto simp: mkEntry_def in_set_enumerate_eq)

lemma consistent_entryCompare:
  assumes "consistent_comparator lc"
  shows "consistent_comparator (entryCompare lc)"
proof -
  have anti: "\<And>a b. (lc a b < 0) = (0 < lc b a)"
    and tr: "\<And>a b c. lc a b \<le> 0 \<Longrightarrow> lc b c \<le> 0 \<Longrightarrow> lc a c \<le> 0"
    using assms unfolding consistent_comparator_def by blast+
  have zero: "\<And>a b. (lc a b = 0) = (lc b a = 0)"
    by (metis anti less_le_not_le linorder_neqE_linordered_idom order_refl)
  have a: "(entryCompare lc x y < 0) = (0 < entryCompare lc y x)" for x y
    using anti [of "label x" "label y"] zero [of "label x" "label y"]
    by (auto simp: entryCompare_def Let_def)
  have t: "entryCompare lc x z \<le> 0" if xy: "entryCompare lc x y \<le> 0" and yz: "entryCompare lc y z \<le> 0" for x y z
  proof -
    have 1: "lc (label x) (label y) \<le> 0" and 2: "lc (label y) (label z) \<le> 0"
      using xy yz by (auto simp: entryCompare_def Let_def split: if_splits)
    have 3: "lc (label x) (label z) \<le> 0" using 1 2 by (rule tr)
    show ?thesis
    proof (cases "lc (label x) (label z) = 0")
      case False
      then show ?thesis using 3 by (simp add: entryCompare_def)
    next
      case True
      then have zx: "lc (label z) (label x) \<le> 0" using zero [of "label x" "label z"] by simp
      have "lc (label y) (label x) \<le> 0" using 2 zx by (rule tr)
      then have xy0: "lc (label x) (label y) = 0" using 1 anti [of "label x" "label y"] by linarith
      have "lc (label z) (label y) \<le> 0" using zx 1 by (rule tr)
      then have yz0: "lc (label y) (label z) = 0" using 2 anti [of "label y" "label z"] by linarith
      show ?thesis
        using xy yz xy0 yz0 True by (simp add: entryCompare_def)
    qed
  qed
  show ?thesis
    unfolding consistent_comparator_def using a t by blast
qed

lemma length_sort_by: "length (sort_by cmp xs) = length xs"
  by (metis mset_sort_by size_mset)

lemma distinct_sort_by: "distinct (sort_by cmp xs) = distinct xs"
  by (metis mset_sort_by distinct_count_atmost_1 set_sort_by count_mset)

lemma sortOneContainer_unfold:
  "sortOneContainer d lc c =
     (let items = getSortableItems d c;
          sorted = sort_by (entryCompare lc) (map (mkEntry d) (enumerate 0 items))
      in if length items < 2 then (False, c)
         else if lastSig c = Some (join ''|'' (map (tabLabelKey d) items)) then (False, c)
         else if map el sorted = items
           then (False, c\<lparr>lastSig := Some (join ''|'' (map (tabLabelKey d) items))\<rparr>)
         else (True, c\<lparr>children := fold appendChild (map el sorted) (children c),
                        lastSig := Some (join ''|'' (map label sorted))\<rparr>))"
proof -
  have "length (sort_by (entryCompare lc) (map (mkEntry d) (enumerate 0 (getSortableItems d c))))
        = length (getSortableItems d c)"
    by (simp add: length_sort_by)
  then show ?thesis
    unfolding sortOneContainer_def Let_def
    by (simp add: changed_iff)
qed

lemma distinct_entries: "distinct (map (mkEntry d) (enumerate 0 items))"
proof -
  have "distinct (map idx (map (mkEntry d) (enumerate 0 items)))"
    unfolding map_idx_entries by simp
  then show ?thesis
    by (metis distinct_map)
qed

lemma sorted_wrt_distinct:
  "sorted_wrt P xs \<Longrightarrow> distinct xs \<Longrightarrow> sorted_wrt (\<lambda>a b. P a b \<and> a \<noteq> b) xs"
  by (induction xs) auto

lemma entry_idx_inj:
  assumes "a \<in> set (map (mkEntry d) (enumerate 0 items))"
    and "b \<in> set (map (mkEntry d) (enumerate 0 items))"
    and "idx a = idx b"
  shows "a = b"
  using assms by (auto simp: mkEntry_def in_set_enumerate_eq)

lemma sorted_els:
  assumes "consistent_comparator lc"
  shows "sorted_wrt (labelOrder d lc items)
           (map el (sort_by (entryCompare lc) (map (mkEntry d) (enumerate 0 items))))"
proof -
  let ?entries = "map (mkEntry d) (enumerate 0 items)"
  let ?sorted = "sort_by (entryCompare lc) ?entries"
  have s: "sorted_wrt (\<lambda>a b. entryCompare lc a b \<le> 0 \<and> a \<noteq> b) ?sorted"
    using sorted_sort_by [OF consistent_entryCompare [OF assms]] distinct_entries
    by (intro sorted_wrt_distinct) (simp_all add: distinct_sort_by)
  have step: "labelOrder d lc items (el a) (el b)"
    if "a \<in> set ?sorted" "b \<in> set ?sorted" "entryCompare lc a b \<le> 0 \<and> a \<noteq> b" for a b
  proof -
    have ea: "a \<in> set ?entries" and eb: "b \<in> set ?entries"
      using that by (simp_all add: set_sort_by)
    note pa = entry_props [OF ea] and pb = entry_props [OF eb]
    have ne: "idx a \<noteq> idx b" using entry_idx_inj [OF ea eb] that(3) by blast
    show ?thesis
    proof (cases "lc (label a) (label b) = 0")
      case True
      then have "idx a < idx b" using that(3) ne by (simp add: entryCompare_def)
      then have "before items (el a) (el b)"
        unfolding before_def using pa pb by blast
      then show ?thesis using True pa pb by (simp add: labelOrder_def)
    next
      case False
      then have "lc (label a) (label b) < 0" using that(3) by (simp add: entryCompare_def)
      then show ?thesis using pa pb by (simp add: labelOrder_def)
    qed
  qed
  have "sorted_wrt (\<lambda>a b. labelOrder d lc items (el a) (el b)) ?sorted"
    using s step by (rule sorted_wrt_mono_rel [rotated]) 
  then show ?thesis by (simp add: sorted_wrt_map)
qed

lemma entries_sorted:
  assumes "sorted_wrt (\<lambda>a b. lc (tabLabelKey d a) (tabLabelKey d b) \<le> 0) items"
  shows "sorted_wrt (\<lambda>a b. entryCompare lc a b \<le> 0) (map (mkEntry d) (enumerate 0 items))"
proof -
  have "entryCompare lc (mkEntry d (enumerate 0 items ! i)) (mkEntry d (enumerate 0 items ! j)) \<le> 0"
    if "i < j" "j < length items" for i j
  proof -
    have "lc (tabLabelKey d (items ! i)) (tabLabelKey d (items ! j)) \<le> 0"
      using assms that by (simp add: sorted_wrt_iff_nth_less)
    then show ?thesis
      using that by (simp add: mkEntry_def entryCompare_def nth_enumerate_eq Let_def)
  qed
  then show ?thesis
    by (simp add: sorted_wrt_iff_nth_less)
qed

lemma labelOrder_le:
  "labelOrder d lc items a b \<Longrightarrow> lc (tabLabelKey d a) (tabLabelKey d b) \<le> 0"
  by (auto simp: labelOrder_def)

lemma unchanged_iff_sorted:
  assumes "consistent_comparator lc"
  shows "(map el (sort_by (entryCompare lc) (map (mkEntry d) (enumerate 0 items))) = items)
         = sorted_wrt (\<lambda>a b. lc (tabLabelKey d a) (tabLabelKey d b) \<le> 0) items"
proof
  assume "map el (sort_by (entryCompare lc) (map (mkEntry d) (enumerate 0 items))) = items"
  then have "sorted_wrt (labelOrder d lc items) items"
    using sorted_els [OF assms, of d items] by simp
  then show "sorted_wrt (\<lambda>a b. lc (tabLabelKey d a) (tabLabelKey d b) \<le> 0) items"
    by (rule sorted_wrt_mono_rel [rotated]) (rule labelOrder_le)
next
  assume "sorted_wrt (\<lambda>a b. lc (tabLabelKey d a) (tabLabelKey d b) \<le> 0) items"
  then have "sort_by (entryCompare lc) (map (mkEntry d) (enumerate 0 items))
             = map (mkEntry d) (enumerate 0 items)"
    by (intro sort_by_sorted entries_sorted)
  then show "map el (sort_by (entryCompare lc) (map (mkEntry d) (enumerate 0 items))) = items"
    by (simp only: map_el_entries)
qed

lemma reordered_items:
  assumes "distinct kids" "\<not> length kids < 2" "mset ys = mset (filter (sortable d) kids)"
  shows "getSortableItems d \<lparr>children = fold appendChild ys kids, innerHits = ih, lastSig = sg\<rparr> = ys"
proof -
  have dy: "distinct ys"
    using assms(1,3) by (metis distinct_filter mset_eq_imp_distinct_iff)
  have sy: "set ys = {k \<in> set kids. sortable d k}"
    using assms(3) by (metis mset_eq_setD set_filter)
  have f: "fold appendChild ys kids = filter (\<lambda>k. k \<notin> set ys) kids @ ys"
    using dy by (rule fold_appendChild)
  have e: "filter (\<lambda>k. k \<notin> set ys) kids = filter (\<lambda>k. \<not> sortable d k) kids"
    using sy by (auto intro: filter_cong)
  have "mset (filter (\<lambda>k. \<not> sortable d k) kids) + mset (filter (sortable d) kids) = mset kids"
    by (simp add: union_commute)
  then have m: "mset (fold appendChild ys kids) = mset kids"
    unfolding f e by (simp add: assms(3))
  have l: "\<not> length (fold appendChild ys kids) < 2"
    using m assms(2) by (metis size_mset)
  have d: "distinct (fold appendChild ys kids)"
    using m assms(1) by (metis mset_eq_imp_distinct_iff)
  have "filter (sortable d) (filter (\<lambda>k. k \<notin> set ys) kids) = []"
    using sy by (auto simp: filter_empty_conv)
  moreover have "filter (sortable d) ys = ys"
    using sy by (auto simp: filter_id_conv)
  ultimately have "filter (sortable d) (fold appendChild ys kids) = ys"
    unfolding f by simp
  then show ?thesis
    using getSortableItems_many [of "\<lparr>children = fold appendChild ys kids, innerHits = ih, lastSig = sg\<rparr>" d]
      l d by simp
qed

lemma reordered_items_update:
  assumes "distinct (children c)" "\<not> length (children c) < 2"
    and "mset ys = mset (filter (sortable d) (children c))"
  shows "getSortableItems d (c\<lparr>children := fold appendChild ys (children c), lastSig := sg\<rparr>) = ys"
  using reordered_items [OF assms, of "innerHits c" sg] by (cases c) simp

lemma mset_fold_appendChild:
  assumes "distinct ys" "set ys \<subseteq> set kids"  "distinct kids"
  shows "mset (fold appendChild ys kids) = mset kids"
proof -
  have "set (fold appendChild ys kids) = set kids"
    using assms(2) by (auto simp: fold_appendChild [OF assms(1)])
  moreover have "distinct (fold appendChild ys kids)"
    using assms by (auto simp: fold_appendChild [OF assms(1)])
  ultimately show ?thesis
    using assms(3) by (simp add: set_eq_iff_mset_eq_distinct)
qed

text \<open>
  C7. For a container of distinct children, with \<open>localeCompare\<close> a consistent
  comparator: when \<open>sortOneContainer\<close> returns true, the container's sortable items are a
  permutation of the same items, in ascending order of their labels, items whose labels
  compare equal in the order they had; the children are a permutation of the children.
  When it returns false the children are as they were. It returns false exactly when
  there are fewer than two sortable items, or the label signature is the cached one, or
  the items are in ascending label order already.
\<close>

theorem sortOneContainer_sorts:
  assumes "consistent_comparator localeCompare"
    and "distinct (children c)"
    and "set (innerHits c) \<subseteq> set (children c)"
  shows "(fst (sortOneContainer d localeCompare c) \<longrightarrow>
            mset (getSortableItems d (snd (sortOneContainer d localeCompare c)))
              = mset (getSortableItems d c)
            \<and> sorted_wrt (labelOrder d localeCompare (getSortableItems d c))
                (getSortableItems d (snd (sortOneContainer d localeCompare c)))
            \<and> mset (children (snd (sortOneContainer d localeCompare c))) = mset (children c))
         \<and> (\<not> fst (sortOneContainer d localeCompare c) \<longrightarrow>
            children (snd (sortOneContainer d localeCompare c)) = children c)
         \<and> fst (sortOneContainer d localeCompare c) =
            (2 \<le> length (getSortableItems d c)
             \<and> lastSig c \<noteq> Some (join ''|'' (map (tabLabelKey d) (getSortableItems d c)))
             \<and> \<not> sorted_wrt (\<lambda>a b. localeCompare (tabLabelKey d a) (tabLabelKey d b) \<le> 0)
                   (getSortableItems d c))"
proof -
  let ?items = "getSortableItems d c"
  let ?sorted = "sort_by (entryCompare localeCompare) (map (mkEntry d) (enumerate 0 ?items))"
  let ?ys = "map el ?sorted"
  let ?R = "sortOneContainer d localeCompare c"
  note u = unchanged_iff_sorted [OF assms(1), of d ?items]
  have third: "fst ?R =
            (2 \<le> length ?items
             \<and> lastSig c \<noteq> Some (join ''|'' (map (tabLabelKey d) ?items))
             \<and> \<not> sorted_wrt (\<lambda>a b. localeCompare (tabLabelKey d a) (tabLabelKey d b) \<le> 0) ?items)"
    unfolding sortOneContainer_unfold Let_def u by auto
  have second: "\<not> fst ?R \<longrightarrow> children (snd ?R) = children c"
    unfolding sortOneContainer_unfold Let_def by auto
  have first: "mset (getSortableItems d (snd ?R)) = mset ?items
            \<and> sorted_wrt (labelOrder d localeCompare ?items) (getSortableItems d (snd ?R))
            \<and> mset (children (snd ?R)) = mset (children c)" if t: "fst ?R"
  proof -
    have len: "\<not> length ?items < 2" using t third by simp
    then have many: "\<not> length (children c) < 2"
      using getSortableItems_few [OF _ assms(3), of d] by blast
    have items: "?items = filter (sortable d) (children c)"
      using many assms(2) by (rule getSortableItems_many)
    have my: "mset ?ys = mset ?items"
    proof -
      have "mset ?ys = image_mset el (mset ?sorted)" by (simp only: mset_map)
      also have "\<dots> = image_mset el (mset (map (mkEntry d) (enumerate 0 ?items)))"
        by (simp only: mset_sort_by)
      also have "\<dots> = mset (map el (map (mkEntry d) (enumerate 0 ?items)))"
        by (simp only: mset_map)
      finally show ?thesis by (simp only: map_el_entries)
    qed
    have snd: "snd ?R = c\<lparr>children := fold appendChild ?ys (children c),
                           lastSig := Some (join ''|'' (map label ?sorted))\<rparr>"
      using t unfolding sortOneContainer_unfold Let_def by (auto split: if_splits)
    have my': "mset ?ys = mset (filter (sortable d) (children c))"
      using my items by simp
    have gi: "getSortableItems d (snd ?R) = ?ys"
      unfolding snd using assms(2) many my' by (rule reordered_items_update)
    have dy: "distinct ?ys"
      using my items assms(2) by (metis distinct_filter mset_eq_imp_distinct_iff)
    have sy: "set ?ys \<subseteq> set (children c)"
      using my items by (metis filter_is_subset mset_eq_setD)
    have mc: "mset (children (snd ?R)) = mset (children c)"
      unfolding snd using mset_fold_appendChild [OF dy sy assms(2)] by simp
    show ?thesis
      unfolding gi using my sorted_els [OF assms(1), of d ?items] mc by simp
  qed
  show ?thesis
    using first second third by blast
qed

theorem sortOneContainer_sorts_witness:
  "fst (sortOneContainer sample_dom codeUnitCompare sample_container)
   \<and> getSortableItems sample_dom sample_container = [1, 2, 3, 4]
   \<and> getSortableItems sample_dom (snd (sortOneContainer sample_dom codeUnitCompare sample_container))
       = [2, 4, 3, 1]
   \<and> sorted_wrt (labelOrder sample_dom codeUnitCompare [1, 2, 3, 4]) [2, 4, 3, 1]
   \<and> children (snd (sortOneContainer sample_dom codeUnitCompare sample_container))
       = [5, 6, 2, 4, 3, 1]
   \<and> \<not> fst (sortOneContainer sample_dom codeUnitCompare sorted_container)
   \<and> children (snd (sortOneContainer sample_dom codeUnitCompare sorted_container))
       = children sorted_container"
proof -
  have d: "distinct (children sample_container)" "distinct (children sorted_container)"
    by (simp_all add: sample_container_def sorted_container_def)
  have i: "set (innerHits sample_container) \<subseteq> set (children sample_container)"
    "set (innerHits sorted_container) \<subseteq> set (children sorted_container)"
    by (simp_all add: sample_container_def sorted_container_def)
  have v: "fst (sortOneContainer sample_dom codeUnitCompare sample_container)"
    "getSortableItems sample_dom sample_container = [1, 2, 3, 4]"
    "getSortableItems sample_dom (snd (sortOneContainer sample_dom codeUnitCompare sample_container))
       = [2, 4, 3, 1]"
    "children (snd (sortOneContainer sample_dom codeUnitCompare sample_container))
       = [5, 6, 2, 4, 3, 1]"
    "\<not> fst (sortOneContainer sample_dom codeUnitCompare sorted_container)"
    by code_simp+
  show ?thesis
    using sortOneContainer_sorts [OF consistent_codeUnitCompare d(1) i(1), of sample_dom]
      sortOneContainer_sorts [OF consistent_codeUnitCompare d(2) i(2), of sample_dom] v
    by simp
qed

section \<open>The CivitAI library panel: \<open>getPreviewSize\<close>\<close>

lemma parseInt_256: "parseInt ''256'' = Finite 256"
  by code_simp

lemma parseInt_empty: "parseInt [] = NaN"
  by (simp add: parseInt_def)

lemma toNumber_Finite: "toNumber n = Finite r \<Longrightarrow> r = of_int n"
  by (simp add: toNumber_def split: if_splits)

lemma parseInt_integer:
  assumes "parseInt s = Finite r"
  shows "\<exists>k::int. r = of_int k"
proof -
  obtain n where "toNumber n = Finite r"
    using assms by (auto simp: parseInt_def Let_def split: if_splits)
  then show ?thesis using toNumber_Finite by blast
qed

lemma clamp_integer:
  "\<exists>k::int. clamp (of_int n) 128 2048 = of_int k \<and> 128 \<le> k \<and> k \<le> 2048"
proof -
  have "clamp (of_int n) 128 2048 = of_int (max 128 (min 2048 n))"
    by (simp add: clamp_def max_def min_def)
  then show ?thesis by (intro exI [of _ "max 128 (min 2048 n)"]) simp
qed

text \<open>
  C10. \<open>getPreviewSize\<close> returns a whole number from 128 to 2048: 256 when the storage
  holds no value, or one that \<open>parseInt\<close> does not read as a finite number, and else the
  number read, clamped to the range.
\<close>

theorem getPreviewSize_range:
  "(\<exists>k::int. getPreviewSize localStorage = of_int k \<and> 128 \<le> k \<and> k \<le> 2048)
   \<and> getPreviewSize localStorage =
       (case localStorage LS_KEY_SIZE of
          None \<Rightarrow> 256
        | Some raw \<Rightarrow> (case parseInt raw of Finite n \<Rightarrow> clamp n 128 2048 | _ \<Rightarrow> 256))"
proof -
  have c256: "clamp 256 128 2048 = 256" by (simp add: clamp_def)
  have eq: "getPreviewSize localStorage =
       (case localStorage LS_KEY_SIZE of
          None \<Rightarrow> 256
        | Some raw \<Rightarrow> (case parseInt raw of Finite n \<Rightarrow> clamp n 128 2048 | _ \<Rightarrow> 256))"
    by (simp add: getPreviewSize_def parseInt_256 parseInt_empty c256 split: option.splits)
  have "\<exists>k::int. getPreviewSize localStorage = of_int k \<and> 128 \<le> k \<and> k \<le> 2048"
  proof (cases "\<exists>raw r. localStorage LS_KEY_SIZE = Some raw \<and> parseInt raw = Finite r")
    case True
    then obtain raw r where h: "localStorage LS_KEY_SIZE = Some raw" "parseInt raw = Finite r" by blast
    then obtain n :: int where "r = of_int n" using parseInt_integer by blast
    then show ?thesis using h clamp_integer [of n] by (simp add: eq)
  next
    case False
    then have "getPreviewSize localStorage = 256"
      unfolding eq by (auto split: option.splits jsnum.splits)
    then show ?thesis by (intro exI [of _ 256]) simp
  qed
  then show ?thesis using eq by blast
qed

theorem getPreviewSize_range_witness:
  "getPreviewSize (Map.empty(LS_KEY_SIZE \<mapsto> ''4096'')) = 2048
   \<and> getPreviewSize (Map.empty(LS_KEY_SIZE \<mapsto> ''large'')) = 256
   \<and> getPreviewSize (Map.empty(LS_KEY_SIZE \<mapsto> '' 12px'')) = 128
   \<and> getPreviewSize (Map.empty(LS_KEY_SIZE \<mapsto> ''512'')) = 512
   \<and> getPreviewSize Map.empty = 256"
proof -
  have p: "parseInt ''4096'' = Finite 4096" "parseInt ''large'' = NaN"
    "parseInt '' 12px'' = Finite 12" "parseInt ''512'' = Finite 512"
    by code_simp+
  have c: "clamp 4096 128 2048 = 2048" "clamp 12 128 2048 = 128" "clamp 512 128 2048 = 512"
    by (simp_all add: clamp_def)
  show ?thesis
    using getPreviewSize_range [of "Map.empty(LS_KEY_SIZE \<mapsto> ''4096'')"]
      getPreviewSize_range [of "Map.empty(LS_KEY_SIZE \<mapsto> ''large'')"]
      getPreviewSize_range [of "Map.empty(LS_KEY_SIZE \<mapsto> '' 12px'')"]
      getPreviewSize_range [of "Map.empty(LS_KEY_SIZE \<mapsto> ''512'')"]
      getPreviewSize_range [of Map.empty]
    by (simp add: p c)
qed

section \<open>The CivitAI library panel: \<open>normalizeListWithAny\<close>\<close>

lemma dropEnd_Cons:
  "rev (dropWhile P (rev (x # xs))) =
     (if (\<forall>y \<in> set xs. P y) \<and> P x then [] else x # rev (dropWhile P (rev xs)))"
  by (auto simp: dropWhile_append)

lemma dropWhile_dropEnd:
  assumes "u = [] \<or> \<not> P (hd u)"
  shows "dropWhile P (rev (dropWhile P (rev u))) = rev (dropWhile P (rev u))"
proof (cases u)
  case Nil
  then show ?thesis by simp
next
  case (Cons x xs)
  then have "\<not> P x" using assms by simp
  then show ?thesis unfolding Cons dropEnd_Cons by simp
qed

lemma trim_idem: "trim (trim s) = trim s"
proof -
  let ?u = "dropWhile isWhiteSpace s"
  have "?u = [] \<or> \<not> isWhiteSpace (hd ?u)"
    using hd_dropWhile [of isWhiteSpace s] by blast
  then have "dropWhile isWhiteSpace (trim s) = trim s"
    unfolding trim_def by (rule dropWhile_dropEnd)
  then show ?thesis
    by (simp add: trim_def dropWhile_idem)
qed

lemma ToString_printable:
  "(ToString nts v \<noteq> Throws) = printable v"
  "(elementStrings nts vs \<noteq> Throws) = list_all printable vs"
  by (induction nts v and nts vs rule: ToString_elementStrings.induct)
     (auto split: completion.splits)

lemma elementVal_wellNamed:
  assumes "wellNamed v"
  shows "\<exists>s. elementVal nts v = Returns (JString s)"
proof (cases "truthy (nameOf v)")
  case True
  then have "isString v \<or> isString (nameOf v)"
    using assms by (simp add: wellNamed_def)
  then show ?thesis
    using True by (cases v; cases "nameOf v") (auto simp: elementVal_def isString_def)
next
  case False
  then have "isString v \<or> printable v"
    using assms by (simp add: wellNamed_def)
  then have "printable v"
    by (cases v) (auto simp: isString_def)
  then obtain s where "ToString nts v = Returns s"
    using ToString_printable(1) [of nts v] by (cases "ToString nts v") auto
  then show ?thesis
    using False by (cases v) (auto simp: elementVal_def)
qed

lemma elementVal_not_wellNamed:
  assumes "\<not> wellNamed v"
  shows "elementVal nts v = Throws
         \<or> (\<exists>val. elementVal nts v = Returns val \<and> truthy val \<and> \<not> isString val)"
proof (cases "truthy (nameOf v)")
  case True
  then have "\<not> isString v" "\<not> isString (nameOf v)"
    using assms by (simp_all add: wellNamed_def)
  then show ?thesis
    using True by (cases v) (auto simp: elementVal_def isString_def)
next
  case False
  then have "\<not> isString v" "\<not> printable v"
    using assms by (simp_all add: wellNamed_def)
  then have "ToString nts v = Throws"
    using ToString_printable(1) [of nts v] by simp
  then show ?thesis
    using False \<open>\<not> isString v\<close> by (cases v) (auto simp: elementVal_def isString_def)
qed

lemma trimmedText_wellNamed:
  assumes "wellNamed v"
  shows "\<exists>s. trimmedText nts v = Returns s \<and> trim s = s"
proof -
  obtain s where "elementVal nts v = Returns (JString s)"
    using elementVal_wellNamed [OF assms] by blast
  then show ?thesis
    by (cases "s = []") (simp_all add: trimmedText_def truthy_def trim_idem)
qed

lemma trimmedText_not_wellNamed:
  assumes "\<not> wellNamed v"
  shows "trimmedText nts v = Throws"
proof -
  consider "elementVal nts v = Throws"
    | val where "elementVal nts v = Returns val" "truthy val" "\<not> isString val"
    using elementVal_not_wellNamed [OF assms, of nts] by blast
  then show ?thesis
  proof cases
    case 1
    then show ?thesis by (simp add: trimmedText_def)
  next
    case 2
    then show ?thesis by (cases val) (simp_all add: trimmedText_def isString_def)
  qed
qed

lemma trimmedText_string: "trimmedText nts (JString s) = Returns (trim s)"
  by (auto simp: trimmedText_def elementVal_def truthy_def trim_def)

lemma collect_ok:
  assumes "\<forall>v \<in> set src. wellNamed v"
  shows "\<exists>more. collect nts src out seen = Returns (out @ more)
           \<and> (\<forall>s \<in> set more. s \<noteq> [] \<and> trim s = s \<and> s \<notin> seen) \<and> distinct more"
  using assms
proof (induction src arbitrary: out seen)
  case Nil
  then show ?case by simp
next
  case (Cons v src)
  then obtain s where s: "trimmedText nts v = Returns s" "trim s = s"
    using trimmedText_wellNamed [of v nts] by auto
  have rest: "\<forall>v \<in> set src. wellNamed v" using Cons.prems by simp
  show ?case
  proof (cases "s = [] \<or> s \<in> seen")
    case True
    then show ?thesis using Cons.IH [OF rest, of out seen] s by auto
  next
    case False
    obtain more where m: "collect nts src (out @ [s]) (insert s seen) = Returns ((out @ [s]) @ more)"
      "\<forall>t \<in> set more. t \<noteq> [] \<and> trim t = t \<and> t \<notin> insert s seen" "distinct more"
      using Cons.IH [OF rest, of "out @ [s]" "insert s seen"] by blast
    have "collect nts (v # src) out seen = Returns (out @ (s # more))"
      using False s m(1) by simp
    moreover have "\<forall>t \<in> set (s # more). t \<noteq> [] \<and> trim t = t \<and> t \<notin> seen"
      using False s(2) m(2) by auto
    moreover have "distinct (s # more)"
      using m(2,3) by auto
    ultimately show ?thesis by blast
  qed
qed

lemma collect_throws:
  assumes "\<exists>v \<in> set src. \<not> wellNamed v"
  shows "collect nts src out seen = Throws"
  using assms
proof (induction src arbitrary: out seen)
  case Nil
  then show ?case by simp
next
  case (Cons v src)
  show ?case
  proof (cases "wellNamed v")
    case False
    then show ?thesis by (simp add: trimmedText_not_wellNamed)
  next
    case True
    then obtain s where "trimmedText nts v = Returns s"
      using trimmedText_wellNamed by blast
    moreover have "\<exists>v \<in> set src. \<not> wellNamed v" using Cons.prems True by auto
    ultimately show ?thesis using Cons.IH by simp
  qed
qed

lemma collect_strings:
  assumes "\<forall>s \<in> set ss. s \<noteq> [] \<and> trim s = s \<and> s \<notin> seen" "distinct ss"
  shows "collect nts (map JString ss) out seen = Returns (out @ ss)"
  using assms
proof (induction ss arbitrary: out seen)
  case Nil
  then show ?case by simp
next
  case (Cons s ss)
  have "collect nts (map JString ss) (out @ [s]) (insert s seen) = Returns ((out @ [s]) @ ss)"
    using Cons.prems by (intro Cons.IH) auto
  then show ?case
    using Cons.prems by (simp add: trimmedText_string)
qed

lemma trim_Any: "trim ''Any'' = ''Any''"
  by code_simp

text \<open>
  C9, as the code has it. For every input, array or not, whose elements are well named
  (a string; or a value whose \<open>name\<close> is a non-empty string; or one whose \<open>name\<close> is falsy
  and that \<open>String\<close> can print), \<open>normalizeListWithAny\<close> returns a list that starts with
  \<open>Any\<close>, whose elements are non-empty trimmed strings, with no element twice; given its
  own output it returns that output. For every other input it throws.
\<close>

theorem normalizeListWithAny_ok:
  "((\<forall>v \<in> set (elementsOf values). wellNamed v) \<longrightarrow>
      (\<exists>rest. normalizeListWithAny nts values = Returns (''Any'' # rest)
           \<and> (\<forall>s \<in> set (''Any'' # rest). s \<noteq> [] \<and> trim s = s)
           \<and> distinct (''Any'' # rest)
           \<and> normalizeListWithAny nts (JArray (map JString (''Any'' # rest)))
               = Returns (''Any'' # rest)))
   \<and> (\<not> (\<forall>v \<in> set (elementsOf values). wellNamed v) \<longrightarrow>
      normalizeListWithAny nts values = Throws)"
proof (intro conjI impI)
  assume ok: "\<forall>v \<in> set (elementsOf values). wellNamed v"
  obtain rest where r: "collect nts (elementsOf values) [''Any''] {''Any''} = Returns ([''Any''] @ rest)"
    "\<forall>s \<in> set rest. s \<noteq> [] \<and> trim s = s \<and> s \<notin> {''Any''}" "distinct rest"
    using collect_ok [OF ok, of nts "[''Any'']" "{''Any''}"] by blast
  have again: "collect nts (map JString rest) [''Any''] {''Any''} = Returns ([''Any''] @ rest)"
    using r(2,3) by (rule collect_strings)
  have "normalizeListWithAny nts (JArray (map JString (''Any'' # rest))) = Returns (''Any'' # rest)"
    using again by (simp add: normalizeListWithAny_def elementsOf_def trimmedText_string trim_Any)
  then show "\<exists>rest. normalizeListWithAny nts values = Returns (''Any'' # rest)
           \<and> (\<forall>s \<in> set (''Any'' # rest). s \<noteq> [] \<and> trim s = s)
           \<and> distinct (''Any'' # rest)
           \<and> normalizeListWithAny nts (JArray (map JString (''Any'' # rest)))
               = Returns (''Any'' # rest)"
    using r trim_Any by (auto simp: normalizeListWithAny_def)
next
  assume "\<not> (\<forall>v \<in> set (elementsOf values). wellNamed v)"
  then show "normalizeListWithAny nts values = Throws"
    by (simp add: normalizeListWithAny_def collect_throws)
qed

theorem normalizeListWithAny_ok_witness:
  "normalizeListWithAny wholeNumberToString sample_values
     = Returns [''Any'', ''SDXL'', ''Pony'', ''null'', ''[object Object]'', ''12'']
   \<and> normalizeListWithAny wholeNumberToString
       (JArray (map JString [''Any'', ''SDXL'', ''Pony'', ''null'', ''[object Object]'', ''12'']))
     = Returns [''Any'', ''SDXL'', ''Pony'', ''null'', ''[object Object]'', ''12'']
   \<and> normalizeListWithAny wholeNumberToString (JString ''SDXL'') = Returns [''Any'']
   \<and> normalizeListWithAny wholeNumberToString unprintable_values = Throws"
proof -
  have h: "\<forall>v \<in> set (elementsOf sample_values). wellNamed v"
    by code_simp
  have u: "\<not> (\<forall>v \<in> set (elementsOf unprintable_values). wellNamed v)"
    by code_simp
  have v: "normalizeListWithAny wholeNumberToString sample_values
     = Returns [''Any'', ''SDXL'', ''Pony'', ''null'', ''[object Object]'', ''12'']"
    by code_simp
  have w: "normalizeListWithAny wholeNumberToString (JString ''SDXL'') = Returns [''Any'']"
    by code_simp
  obtain rest where r: "normalizeListWithAny wholeNumberToString sample_values = Returns (''Any'' # rest)"
    and again: "normalizeListWithAny wholeNumberToString (JArray (map JString (''Any'' # rest)))
                  = Returns (''Any'' # rest)"
    using normalizeListWithAny_ok [of sample_values wholeNumberToString] h by blast
  have "''Any'' # rest = [''Any'', ''SDXL'', ''Pony'', ''null'', ''[object Object]'', ''12'']"
    using r v by simp
  moreover have "normalizeListWithAny wholeNumberToString unprintable_values = Throws"
    using normalizeListWithAny_ok [of unprintable_values wholeNumberToString] u by blast
  ultimately show ?thesis
    using again v w by simp
qed

text \<open>
  C9, for elements of any type, fails: an element whose \<open>name\<close> is a number that is not 0
  reaches \<open>.trim()\<close> as that number, and the call throws; and an element with no name and
  an own property \<open>toString\<close> makes \<open>String\<close> throw.
\<close>

theorem normalizeListWithAny_numeric_name_counterexample:
  "normalizeListWithAny wholeNumberToString numbered_values = Throws
   \<and> normalizeListWithAny wholeNumberToString unprintable_values = Throws"
  by code_simp

end
